theory Spec2Isabelle
  imports Main "HOL-Library.Word"
begin

section \<open>proxperfect: a fan-out reverse proxy\<close>

text \<open>
  A shallow embedding of \<^verbatim>\<open>proxperfect.go\<close>. The program keeps two globals,
  \<^verbatim>\<open>config\<close> and \<^verbatim>\<open>proxyState\<close>; the semaphores and reverse proxies that
  \<^verbatim>\<open>proxyState\<close> points to live on the heap. Library calls (\<^verbatim>\<open>flag\<close>,
  \<^verbatim>\<open>url.Parse\<close>, \<^verbatim>\<open>sync.Pool\<close>, \<^verbatim>\<open>semaphore.Weighted\<close>,
  \<^verbatim>\<open>ReverseProxy.ServeHTTP\<close>, \<^verbatim>\<open>http.Redirect\<close>) are not part of the program:
  their results enter the model as arguments or as small models of their documented behaviour.
\<close>

subsection \<open>Errors\<close>

text \<open>\<^verbatim>\<open>os.Exit(code)\<close> ends the process; a panic unwinds the running goroutine.\<close>

datatype error = Exit int | Panic

text \<open>Indexing a slice panics out of range.\<close>

definition index_slice :: "'a list \<Rightarrow> nat \<Rightarrow> error + 'a" where
  "index_slice xs i = (if i < length xs then Inr (xs ! i) else Inl Panic)"

text \<open>\<^verbatim>\<open>a % b\<close> on \<^verbatim>\<open>uint32\<close> panics when \<^verbatim>\<open>b\<close> is zero.\<close>

definition mod_uint32 :: "32 word \<Rightarrow> 32 word \<Rightarrow> error + 32 word" where
  "mod_uint32 a b = (if b = 0 then Inl Panic else Inr (a mod b))"

subsection \<open>Configuration\<close>

record Config =
  beVerbose :: bool
  showVersion :: bool
  listenPort :: int
  proxyStrings :: "string list"
  poolBufSize :: int
  numConnsPerServer :: int
  redirectCode :: int
  fdLimit :: "64 word"

text \<open>
  The values the \<^verbatim>\<open>flag\<close> package hands to \<^verbatim>\<open>ParseArguments\<close> after
  \<^verbatim>\<open>flag.Parse()\<close>; the positional arguments \<^verbatim>\<open>flag.Args()\<close> are passed beside them.
\<close>

record Flags =
  flag_version :: bool
  flag_verbose :: bool
  flag_port :: int
  flag_bufsize :: int
  flag_maxconns :: int
  flag_redirect :: int
  flag_fdlimit :: "64 word"

text \<open>\<^verbatim>\<open>syscall.Rlimit\<close> for \<^verbatim>\<open>RLIMIT_NOFILE\<close>: the process's open-files limit.\<close>

record Rlimit =
  Cur :: "64 word"
  Max :: "64 word"

definition GetOpenFilesLimit :: "Rlimit \<Rightarrow> Rlimit" where
  "GetOpenFilesLimit os_limit = os_limit"

definition SetOpenFilesLimit :: "Config \<Rightarrow> Rlimit \<Rightarrow> Config \<times> Rlimit" where
  "SetOpenFilesLimit cfg os_limit =
     (let rlimit = GetOpenFilesLimit os_limit;
          cfg1 = (if fdLimit cfg \<ge> Max rlimit then cfg\<lparr>fdLimit := Max rlimit\<rparr> else cfg)
      in if Cur rlimit \<ge> fdLimit cfg1 then (cfg1, os_limit)
         else (cfg1, rlimit\<lparr>Cur := fdLimit cfg1\<rparr>))"

definition ParseArguments :: "Flags \<Rightarrow> string list \<Rightarrow> Rlimit \<Rightarrow> error + (Config \<times> Rlimit)" where
  "ParseArguments flags args os_limit =
     (let cfg = \<lparr> beVerbose = flag_verbose flags,
                  showVersion = flag_version flags,
                  listenPort = flag_port flags,
                  proxyStrings = args,
                  poolBufSize = flag_bufsize flags,
                  numConnsPerServer = flag_maxconns flags,
                  redirectCode = flag_redirect flags,
                  fdLimit = flag_fdlimit flags \<rparr>
      in if showVersion cfg then Inl (Exit 0)
         else if length args = 0 then Inl (Exit 1)
         else if fdLimit cfg \<noteq> 0 then Inr (SetOpenFilesLimit cfg os_limit)
         else Inr (cfg, os_limit))"

subsection \<open>The buffer pool\<close>

type_synonym byte = "8 word"

text \<open>
  \<^verbatim>\<open>sync.Pool\<close> holds a bag of values. \<^verbatim>\<open>Get\<close> removes and returns some stored value,
  or returns nil: the pool may be empty, the value may sit in another processor's local
  cache, or the collector may have dropped it. Which of these happens is not the caller's
  choice, so it is an argument: \<open>None\<close> is a miss, \<open>Some i\<close> hands out the \<open>i\<close>-th entry
  (a miss again when there is no such entry).
\<close>

definition sync_Pool_Get :: "nat option \<Rightarrow> 'a list \<Rightarrow> 'a option \<times> 'a list" where
  "sync_Pool_Get pick xs =
     (case pick of
        None \<Rightarrow> (None, xs)
      | Some i \<Rightarrow> (if i < length xs then (Some (xs ! i), take i xs @ drop (Suc i) xs)
                   else (None, xs)))"

definition sync_Pool_Put :: "'a \<Rightarrow> 'a list \<Rightarrow> 'a list" where
  "sync_Pool_Put x xs = xs @ [x]"

text \<open>The collector drops the \<open>i\<close>-th entry.\<close>

definition sync_Pool_discard :: "nat \<Rightarrow> 'a list \<Rightarrow> 'a list" where
  "sync_Pool_discard i xs = take i xs @ drop (Suc i) xs"

record proxyBufferPool =
  pool :: "byte list list"
  bufAllocNum :: "32 word"

definition NewProxyBufferPool :: proxyBufferPool where
  "NewProxyBufferPool = \<lparr> pool = [], bufAllocNum = 0 \<rparr>"

text \<open>\<^verbatim>\<open>make([]byte, n)\<close> panics for a negative length.\<close>

definition make_bytes :: "int \<Rightarrow> error + byte list" where
  "make_bytes n = (if n < 0 then Inl Panic else Inr (replicate (nat n) 0))"

definition Get :: "Config \<Rightarrow> nat option \<Rightarrow> proxyBufferPool \<Rightarrow> error + (byte list \<times> proxyBufferPool)" where
  "Get cfg pick bufPool =
     (case sync_Pool_Get pick (pool bufPool) of
        (None, rest) \<Rightarrow>
          (let counted = (if beVerbose cfg
                          then bufPool\<lparr>bufAllocNum := bufAllocNum bufPool + 1\<rparr>
                          else bufPool)
           in case make_bytes (poolBufSize cfg) of
                Inl e \<Rightarrow> Inl e
              | Inr fresh \<Rightarrow> Inr (fresh, counted\<lparr>pool := rest\<rparr>))
      | (Some buf, rest) \<Rightarrow> Inr (buf, bufPool\<lparr>pool := rest\<rparr>))"

definition Put :: "byte list \<Rightarrow> proxyBufferPool \<Rightarrow> proxyBufferPool" where
  "Put buf bufPool = bufPool\<lparr>pool := sync_Pool_Put buf (pool bufPool)\<rparr>"

text \<open>A history of calls on one pool, ending in the pool it leaves behind.\<close>

datatype pool_call = CallGet "nat option" | CallPut "byte list" | Collect nat

fun pool_history :: "Config \<Rightarrow> pool_call list \<Rightarrow> proxyBufferPool \<Rightarrow> error + proxyBufferPool" where
  "pool_history cfg [] bufPool = Inr bufPool"
| "pool_history cfg (CallGet pick # calls) bufPool =
     (case Get cfg pick bufPool of
        Inl e \<Rightarrow> Inl e
      | Inr (buf, bufPool') \<Rightarrow> pool_history cfg calls bufPool')"
| "pool_history cfg (CallPut buf # calls) bufPool = pool_history cfg calls (Put buf bufPool)"
| "pool_history cfg (Collect i # calls) bufPool =
     pool_history cfg calls (bufPool\<lparr>pool := sync_Pool_discard i (pool bufPool)\<rparr>)"

text \<open>The buffers a history hands to \<^verbatim>\<open>Put\<close>.\<close>

fun put_buffers :: "pool_call list \<Rightarrow> byte list list" where
  "put_buffers [] = []"
| "put_buffers (CallPut buf # calls) = buf # put_buffers calls"
| "put_buffers (c # calls) = put_buffers calls"

subsection \<open>Proxies, limiters and the global proxy state\<close>

text \<open>
  \<^verbatim>\<open>semaphore.Weighted\<close>: \<open>sem_size\<close> permits in all, \<open>sem_cur\<close> of them handed out.
  \<^verbatim>\<open>Acquire(ctx, 1)\<close> with the background context, which is never cancelled, returns
  only by taking a permit, and takes one only while \<open>sem_size - sem_cur \<ge> 1\<close>; until then the
  caller is parked. \<open>None\<close> says the caller cannot proceed in this state. The real semaphore
  also queues waiters first come first served, which only delays a caller further.
\<close>

record Weighted =
  sem_size :: int
  sem_cur :: int

definition NewWeighted :: "int \<Rightarrow> Weighted" where
  "NewWeighted n = \<lparr> sem_size = n, sem_cur = 0 \<rparr>"

definition Acquire :: "Weighted \<Rightarrow> Weighted option" where
  "Acquire s = (if sem_size s - sem_cur s \<ge> 1 then Some (s\<lparr>sem_cur := sem_cur s + 1\<rparr>) else None)"

text \<open>\<^verbatim>\<open>Release(1)\<close> panics when more is released than is held.\<close>

definition Release :: "Weighted \<Rightarrow> error + Weighted" where
  "Release s = (if sem_cur s - 1 < 0 then Inl Panic else Inr (s\<lparr>sem_cur := sem_cur s - 1\<rparr>))"

text \<open>
  A \<^verbatim>\<open>httputil.ReverseProxy\<close> as far as the program sets it up: the parsed target, the
  flush interval and the buffer pool it was given.
\<close>

record ReverseProxy =
  target :: string
  FlushInterval :: int
  BufferPool :: "proxyBufferPool option"

text \<open>\<open>parse\<close> stands for \<^verbatim>\<open>url.Parse\<close>: \<open>None\<close> is its error.\<close>

definition NewProxy :: "(string \<Rightarrow> string option) \<Rightarrow> string \<Rightarrow> error + ReverseProxy" where
  "NewProxy parse targetHost =
     (case parse targetHost of
        None \<Rightarrow> Inl Panic
      | Some url \<Rightarrow> Inr \<lparr> target = url, FlushInterval = 0, BufferPool = None \<rparr>)"

text \<open>
  \<^verbatim>\<open>proxyState\<close>: \<open>connLimiters\<close> holds pointers, here addresses into the store of
  semaphores below.
\<close>

record ProxyState =
  proxies :: "ReverseProxy list"
  connLimiters :: "nat list"
  requestNum :: "32 word"

record Store =
  proxyState :: ProxyState
  semaphores :: "Weighted list"

text \<open>The zero values the globals hold when \<^verbatim>\<open>main\<close> starts.\<close>

definition zero_Store :: Store where
  "zero_Store = \<lparr> proxyState = \<lparr> proxies = [], connLimiters = [], requestNum = 0 \<rparr>,
                  semaphores = [] \<rparr>"

text \<open>One round of the loop of \<^verbatim>\<open>InitProxyState\<close>, for the argument \<open>proxyStr\<close>.\<close>

definition add_proxy :: "(string \<Rightarrow> string option) \<Rightarrow> Config \<Rightarrow> string \<Rightarrow> Store \<Rightarrow> error + Store" where
  "add_proxy parse cfg proxyStr s =
     (case NewProxy parse proxyStr of
        Inl e \<Rightarrow> Inl e
      | Inr made \<Rightarrow>
          (let flushing = made\<lparr>FlushInterval := - 1\<rparr>;
               proxy = (if poolBufSize cfg > 0
                        then flushing\<lparr>BufferPool := Some NewProxyBufferPool\<rparr>
                        else flushing);
               ps = proxyState s;
               s1 = s\<lparr>proxyState := ps\<lparr>proxies := proxies ps @ [proxy]\<rparr>\<rparr>
           in if numConnsPerServer cfg \<noteq> 0
              then Inr (s1\<lparr>proxyState := (proxyState s1)\<lparr>connLimiters :=
                             connLimiters (proxyState s1) @ [length (semaphores s1)]\<rparr>,
                           semaphores := semaphores s1 @ [NewWeighted (numConnsPerServer cfg)]\<rparr>)
              else Inr s1))"

fun add_proxies :: "(string \<Rightarrow> string option) \<Rightarrow> Config \<Rightarrow> string list \<Rightarrow> Store \<Rightarrow> error + Store" where
  "add_proxies parse cfg [] s = Inr s"
| "add_proxies parse cfg (proxyStr # rest) s =
     (case add_proxy parse cfg proxyStr s of
        Inl e \<Rightarrow> Inl e
      | Inr s' \<Rightarrow> add_proxies parse cfg rest s')"

definition InitProxyState :: "(string \<Rightarrow> string option) \<Rightarrow> Config \<Rightarrow> string list \<Rightarrow> Store \<Rightarrow> error + Store" where
  "InitProxyState parse cfg args s =
     add_proxies parse cfg args (s\<lparr>proxyState := (proxyState s)\<lparr>requestNum := 0\<rparr>\<rparr>)"

subsection \<open>The request handlers\<close>

record Request =
  Method :: string
  URL :: string

text \<open>
  What a handler does that can be seen from outside, in order: the backend index it
  computed, the permit it took, the forward it started, the permit it gave back, the
  redirect it answered with (the target and the code it passes to \<^verbatim>\<open>http.Redirect\<close>).
\<close>

datatype event =
    Selected nat
  | Acquired nat
  | Forwarded nat Request
  | Released nat
  | Redirected string int

text \<open>
  How a handler call ends: it returns, it panics (the server recovers the panic and goes on
  serving), or it stays parked in \<^verbatim>\<open>Acquire\<close> for as long as nothing else releases.
\<close>

datatype exit = Returned | Panicked | Blocked

text \<open>
  How \<^verbatim>\<open>proxy.ServeHTTP(w, r)\<close> ends. It returns after a complete exchange, and also
  after it has answered a backend it could not reach with a gateway error. Once the response
  is under way, an error while copying the body (the client went away, the backend broke
  off) has no status left to report: under a server, \<^verbatim>\<open>ServeHTTP\<close> then panics with
  \<^verbatim>\<open>http.ErrAbortHandler\<close>.
\<close>

datatype serve_outcome = Completed | BadGateway | AbortHandler

definition atomic_AddUint32 :: "Store \<Rightarrow> Store \<times> 32 word" where
  "atomic_AddUint32 s =
     (let new = requestNum (proxyState s) + 1
      in (s\<lparr>proxyState := (proxyState s)\<lparr>requestNum := new\<rparr>\<rparr>, new))"

text \<open>
  \<^verbatim>\<open>currentRequestNum % uint32(len(proxyState.proxies))\<close>, then
  \<^verbatim>\<open>proxyState.proxies[proxyIdx]\<close>.
\<close>

definition proxy_index :: "Store \<Rightarrow> 32 word \<Rightarrow> error + nat" where
  "proxy_index s currentRequestNum =
     (case mod_uint32 currentRequestNum (of_nat (length (proxies (proxyState s)))) of
        Inl e \<Rightarrow> Inl e
      | Inr proxyIdx \<Rightarrow>
          (case index_slice (proxies (proxyState s)) (unat proxyIdx) of
             Inl e \<Rightarrow> Inl e
           | Inr proxy \<Rightarrow> Inr (unat proxyIdx)))"

text \<open>The verbose log lines read \<^verbatim>\<open>config.proxyStrings[proxyIdx]\<close>.\<close>

definition verbose_line :: "Config \<Rightarrow> nat \<Rightarrow> error + unit" where
  "verbose_line cfg proxyIdx =
     (if beVerbose cfg
      then (case index_slice (proxyStrings cfg) proxyIdx of Inl e \<Rightarrow> Inl e | Inr str \<Rightarrow> Inr ())
      else Inr ())"

text \<open>
  Lines 230 to 234: with a nonzero cap, fetch the backend's limiter and acquire one permit.
\<close>

datatype admission = Admitted Store "event list" | Waits | AdmitPanic

definition admit :: "Config \<Rightarrow> Store \<Rightarrow> nat \<Rightarrow> admission" where
  "admit cfg s proxyIdx =
     (if numConnsPerServer cfg \<noteq> 0
      then (case index_slice (connLimiters (proxyState s)) proxyIdx of
              Inl e \<Rightarrow> AdmitPanic
            | Inr limiter \<Rightarrow>
                (case index_slice (semaphores s) limiter of
                   Inl e \<Rightarrow> AdmitPanic
                 | Inr sem \<Rightarrow>
                     (case Acquire sem of
                        None \<Rightarrow> Waits
                      | Some sem' \<Rightarrow>
                          Admitted (s\<lparr>semaphores := (semaphores s)[limiter := sem']\<rparr>)
                                   [Acquired proxyIdx])))
      else Admitted s [])"

text \<open>
  Lines 236 to 244: the forward between the two log lines. The first component says that
  \<^verbatim>\<open>ServeHTTP\<close> was entered, the second that control reaches line 246.
\<close>

definition forward :: "Config \<Rightarrow> serve_outcome \<Rightarrow> nat \<Rightarrow> bool \<times> bool" where
  "forward cfg outcome proxyIdx =
     (case verbose_line cfg proxyIdx of
        Inl e \<Rightarrow> (False, False)
      | Inr u \<Rightarrow>
          (if outcome = AbortHandler then (True, False)
           else (case verbose_line cfg proxyIdx of
                   Inl e \<Rightarrow> (True, False)
                 | Inr u' \<Rightarrow> (True, True))))"

text \<open>Lines 246 to 248: with a nonzero cap, give the permit back.\<close>

definition release :: "Config \<Rightarrow> Store \<Rightarrow> nat \<Rightarrow> error + (Store \<times> event list)" where
  "release cfg s proxyIdx =
     (if numConnsPerServer cfg \<noteq> 0
      then (case index_slice (connLimiters (proxyState s)) proxyIdx of
              Inl e \<Rightarrow> Inl e
            | Inr limiter \<Rightarrow>
                (case index_slice (semaphores s) limiter of
                   Inl e \<Rightarrow> Inl e
                 | Inr sem \<Rightarrow>
                     (case Release sem of
                        Inl e \<Rightarrow> Inl e
                      | Inr sem' \<Rightarrow>
                          Inr (s\<lparr>semaphores := (semaphores s)[limiter := sem']\<rparr>,
                               [Released proxyIdx]))))
      else Inr (s, []))"

definition ProxyRequestHandler ::
  "Config \<Rightarrow> serve_outcome \<Rightarrow> Store \<Rightarrow> Request \<Rightarrow> Store \<times> event list \<times> exit" where
  "ProxyRequestHandler cfg outcome s r =
     (case atomic_AddUint32 s of
        (s1, currentRequestNum) \<Rightarrow>
          (case proxy_index s1 currentRequestNum of
             Inl e \<Rightarrow> (s1, [], Panicked)
           | Inr proxyIdx \<Rightarrow>
               (case admit cfg s1 proxyIdx of
                  AdmitPanic \<Rightarrow> (s1, [Selected proxyIdx], Panicked)
                | Waits \<Rightarrow> (s1, [Selected proxyIdx], Blocked)
                | Admitted s2 acquired \<Rightarrow>
                    (case forward cfg outcome proxyIdx of
                       (entered, reaches) \<Rightarrow>
                         (let served = (if entered then [Forwarded proxyIdx r] else [])
                          in if reaches
                             then (case release cfg s2 proxyIdx of
                                     Inl e \<Rightarrow>
                                       (s2, Selected proxyIdx # acquired @ served, Panicked)
                                   | Inr (s3, released) \<Rightarrow>
                                       (s3, Selected proxyIdx # acquired @ served @ released,
                                        Returned))
                             else (s2, Selected proxyIdx # acquired @ served, Panicked))))))"

definition RedirectHandler :: "Config \<Rightarrow> Store \<Rightarrow> Request \<Rightarrow> Store \<times> event list \<times> exit" where
  "RedirectHandler cfg s r =
     (case atomic_AddUint32 s of
        (s1, currentRequestNum) \<Rightarrow>
          (case mod_uint32 currentRequestNum (of_nat (length (proxies (proxyState s1)))) of
             Inl e \<Rightarrow> (s1, [], Panicked)
           | Inr proxyIdx \<Rightarrow>
               (case index_slice (proxyStrings cfg) (unat proxyIdx) of
                  Inl e \<Rightarrow> (s1, [], Panicked)
                | Inr base \<Rightarrow>
                    (case verbose_line cfg (unat proxyIdx) of
                       Inl e \<Rightarrow> (s1, [Selected (unat proxyIdx)], Panicked)
                     | Inr u \<Rightarrow>
                         (s1, [Selected (unat proxyIdx),
                               Redirected (base @ URL r) (redirectCode cfg)],
                          Returned)))))"

subsection \<open>main\<close>

text \<open>
  \<^verbatim>\<open>main\<close> up to the point where it starts listening: the configuration and the store
  the handlers will run on, or the error that ended the process first.
\<close>

definition main :: "(string \<Rightarrow> string option) \<Rightarrow> Flags \<Rightarrow> string list \<Rightarrow> Rlimit \<Rightarrow> error + (Config \<times> Store)" where
  "main parse flags args os_limit =
     (case ParseArguments flags args os_limit of
        Inl e \<Rightarrow> Inl e
      | Inr (cfg, os_limit') \<Rightarrow>
          (case InitProxyState parse cfg args zero_Store of
             Inl e \<Rightarrow> Inl e
           | Inr s \<Rightarrow> Inr (cfg, s)))"

text \<open>The handler \<^verbatim>\<open>main\<close> registers for every path.\<close>

definition registered_handler ::
  "Config \<Rightarrow> serve_outcome \<Rightarrow> Store \<Rightarrow> Request \<Rightarrow> Store \<times> event list \<times> exit" where
  "registered_handler cfg outcome s r =
     (if redirectCode cfg = 0 then ProxyRequestHandler cfg outcome s r
      else RedirectHandler cfg s r)"

text \<open>
  Requests served one after the other: each handler call has ended (returned, panicked, or
  parked for good) before the next request arrives. The events of all calls, in order.
\<close>

fun serve_sequentially ::
  "Config \<Rightarrow> Store \<Rightarrow> (serve_outcome \<times> Request) list \<Rightarrow> Store \<times> event list" where
  "serve_sequentially cfg s [] = (s, [])"
| "serve_sequentially cfg s ((outcome, r) # rest) =
     (case registered_handler cfg outcome s r of
        (s1, events, ending) \<Rightarrow>
          (case serve_sequentially cfg s1 rest of
             (s2, later) \<Rightarrow> (s2, events @ later)))"

fun selected :: "event list \<Rightarrow> nat list" where
  "selected [] = []"
| "selected (Selected i # es) = i # selected es"
| "selected (e # es) = selected es"

subsection \<open>Concurrent requests\<close>

text \<open>
  The server runs \<^verbatim>\<open>ProxyRequestHandler\<close> in one goroutine per request. The
  goroutines share the store and meet only in the atomic add and in the semaphores, so a run
  of the server is an interleaving of the handler's stages. A task is at one of these points:
  not yet started; index computed, before line 230; permit taken (or none needed), inside
  lines 236 to 244; back from \<^verbatim>\<open>ServeHTTP\<close>, before line 246; returned; panicked.
\<close>

datatype pc =
    Arrived
  | AdmissionPending nat
  | Forwarding nat
  | Releasing nat
  | HasReturned
  | HasPanicked

text \<open>One stage of one task; \<open>None\<close> when the task cannot move in this store.\<close>

fun task_step :: "Config \<Rightarrow> serve_outcome \<Rightarrow> Store \<Rightarrow> pc \<Rightarrow> (Store \<times> pc) option" where
  "task_step cfg outcome s Arrived =
     (case atomic_AddUint32 s of
        (s1, currentRequestNum) \<Rightarrow>
          (case proxy_index s1 currentRequestNum of
             Inl e \<Rightarrow> Some (s1, HasPanicked)
           | Inr proxyIdx \<Rightarrow> Some (s1, AdmissionPending proxyIdx)))"
| "task_step cfg outcome s (AdmissionPending proxyIdx) =
     (case admit cfg s proxyIdx of
        AdmitPanic \<Rightarrow> Some (s, HasPanicked)
      | Waits \<Rightarrow> None
      | Admitted s2 acquired \<Rightarrow> Some (s2, Forwarding proxyIdx))"
| "task_step cfg outcome s (Forwarding proxyIdx) =
     (if snd (forward cfg outcome proxyIdx) then Some (s, Releasing proxyIdx)
      else Some (s, HasPanicked))"
| "task_step cfg outcome s (Releasing proxyIdx) =
     (case release cfg s proxyIdx of
        Inl e \<Rightarrow> Some (s, HasPanicked)
      | Inr (s3, released) \<Rightarrow> Some (s3, HasReturned))"
| "task_step cfg outcome s HasReturned = None"
| "task_step cfg outcome s HasPanicked = None"

record World =
  store :: Store
  tasks :: "pc list"

text \<open>A request arrives, or some task runs its next stage.\<close>

inductive step :: "Config \<Rightarrow> World \<Rightarrow> World \<Rightarrow> bool" for cfg :: Config where
  arrive: "step cfg w (w\<lparr>tasks := tasks w @ [Arrived]\<rparr>)"
| run: "i < length (tasks w) \<Longrightarrow>
        task_step cfg outcome (store w) (tasks w ! i) = Some (s', pc') \<Longrightarrow>
        step cfg w \<lparr> store = s', tasks = (tasks w)[i := pc'] \<rparr>"

text \<open>The tasks that hold a permit of backend \<open>b\<close>.\<close>

definition holders :: "pc list \<Rightarrow> nat \<Rightarrow> nat" where
  "holders ts b = count_list ts (Forwarding b) + count_list ts (Releasing b)"

text \<open>
  A schedule picks the interleaving: a request arrives, or the task at a given position runs
  its next stage (with the given ending of \<^verbatim>\<open>ServeHTTP\<close>, read only at that stage).
  \<open>play\<close> runs a schedule and gives \<open>None\<close> when it asks a parked or ended task to move.
\<close>

datatype move = Arrive | Run nat serve_outcome

fun play :: "Config \<Rightarrow> move list \<Rightarrow> World \<Rightarrow> World option" where
  "play cfg [] w = Some w"
| "play cfg (Arrive # ms) w = play cfg ms (w\<lparr>tasks := tasks w @ [Arrived]\<rparr>)"
| "play cfg (Run i outcome # ms) w =
     (if i < length (tasks w)
      then (case task_step cfg outcome (store w) (tasks w ! i) of
              None \<Rightarrow> None
            | Some (s', pc') \<Rightarrow> play cfg ms \<lparr> store = s', tasks = (tasks w)[i := pc'] \<rparr>)
      else None)"

subsection \<open>Notions used in the proofs\<close>

text \<open>Whether a task at this point holds a permit of backend \<open>b\<close>: 1 or 0.\<close>

fun holds :: "pc \<Rightarrow> nat \<Rightarrow> nat" where
  "holds (Forwarding i) b = (if i = b then 1 else 0)"
| "holds (Releasing i) b = (if i = b then 1 else 0)"
| "holds p b = 0"

text \<open>
  The invariant of a server with a nonzero cap and \<open>n\<close> backends: backend \<open>b\<close> has its own
  semaphore at address \<open>b\<close>, the semaphore's size is the cap, its count covers the tasks that
  hold a permit, and the count stays within the cap (within 0 for a negative cap).
\<close>

definition admission_inv :: "Config \<Rightarrow> nat \<Rightarrow> World \<Rightarrow> bool" where
  "admission_inv cfg n w \<longleftrightarrow>
     connLimiters (proxyState (store w)) = [0..<n] \<and>
     length (semaphores (store w)) = n \<and>
     (\<forall>b<n. sem_size (semaphores (store w) ! b) = numConnsPerServer cfg \<and>
            int (holders (tasks w) b) \<le> sem_cur (semaphores (store w) ! b) \<and>
            sem_cur (semaphores (store w) ! b) \<le> max 0 (numConnsPerServer cfg)) \<and>
     (\<forall>b\<ge>n. holders (tasks w) b = 0)"

text \<open>
  A store the handlers can run on: some backends, few enough for \<^verbatim>\<open>uint32\<close>, and as many
  as there are backend strings in the configuration.
\<close>

definition serving :: "Config \<Rightarrow> Store \<Rightarrow> bool" where
  "serving cfg s \<longleftrightarrow>
     0 < length (proxies (proxyState s)) \<and> length (proxies (proxyState s)) < 2 ^ 32 \<and>
     length (proxyStrings cfg) = length (proxies (proxyState s))"

definition ticketed :: "Store \<Rightarrow> Store" where
  "ticketed s = s\<lparr>proxyState := (proxyState s)\<lparr>requestNum := requestNum (proxyState s) + 1\<rparr>\<rparr>"

definition next_index :: "Store \<Rightarrow> nat" where
  "next_index s = unat (requestNum (proxyState s) + 1) mod length (proxies (proxyState s))"

subsection \<open>Example deployments\<close>

text \<open>The defaults that \<^verbatim>\<open>ParseArguments\<close> declares for its flags.\<close>

definition default_flags :: Flags where
  "default_flags = \<lparr> flag_version = False, flag_verbose = False, flag_port = 8080,
                     flag_bufsize = 128 * 1024, flag_maxconns = 10, flag_redirect = 0,
                     flag_fdlimit = 0 \<rparr>"

definition usual_limit :: Rlimit where
  "usual_limit = \<lparr> Cur = 1024, Max = 4096 \<rparr>"

definition get_x :: Request where
  "get_x = \<lparr> Method = ''GET'', URL = ''/x'' \<rparr>"

text \<open>Two servers behind the proxy, every flag at its default.\<close>

definition two_servers_config :: Config where
  "two_servers_config =
     \<lparr> beVerbose = False, showVersion = False, listenPort = 8080,
       proxyStrings = [''http://192.168.0.1'', ''http://192.168.0.2''],
       poolBufSize = 131072, numConnsPerServer = 10, redirectCode = 0, fdLimit = 0 \<rparr>"

definition two_servers_store :: Store where
  "two_servers_store =
     \<lparr> proxyState =
         \<lparr> proxies =
             [\<lparr> target = ''http://192.168.0.1'', FlushInterval = - 1,
                BufferPool = Some \<lparr> pool = [], bufAllocNum = 0 \<rparr> \<rparr>,
              \<lparr> target = ''http://192.168.0.2'', FlushInterval = - 1,
                BufferPool = Some \<lparr> pool = [], bufAllocNum = 0 \<rparr> \<rparr>],
           connLimiters = [0, 1], requestNum = 0 \<rparr>,
       semaphores = [\<lparr> sem_size = 10, sem_cur = 0 \<rparr>, \<lparr> sem_size = 10, sem_cur = 0 \<rparr>] \<rparr>"

text \<open>One server, at most one connection to it (\<^verbatim>\<open>-maxconns 1\<close>).\<close>

definition one_server_config :: Config where
  "one_server_config =
     \<lparr> beVerbose = False, showVersion = False, listenPort = 8080,
       proxyStrings = [''http://192.168.0.1''],
       poolBufSize = 131072, numConnsPerServer = 1, redirectCode = 0, fdLimit = 0 \<rparr>"

definition one_server_store :: Store where
  "one_server_store =
     \<lparr> proxyState =
         \<lparr> proxies =
             [\<lparr> target = ''http://192.168.0.1'', FlushInterval = - 1,
                BufferPool = Some \<lparr> pool = [], bufAllocNum = 0 \<rparr> \<rparr>],
           connLimiters = [0], requestNum = 0 \<rparr>,
       semaphores = [\<lparr> sem_size = 1, sem_cur = 0 \<rparr>] \<rparr>"

text \<open>Two servers \<open>b0\<close> and \<open>b1\<close>, answered with redirects (\<^verbatim>\<open>-redirect 302\<close>).\<close>

definition redirecting_config :: Config where
  "redirecting_config =
     \<lparr> beVerbose = False, showVersion = False, listenPort = 8080,
       proxyStrings = [''http://b0'', ''http://b1''],
       poolBufSize = 131072, numConnsPerServer = 10, redirectCode = 302, fdLimit = 0 \<rparr>"

definition redirecting_store :: Store where
  "redirecting_store =
     \<lparr> proxyState =
         \<lparr> proxies =
             [\<lparr> target = ''http://b0'', FlushInterval = - 1,
                BufferPool = Some \<lparr> pool = [], bufAllocNum = 0 \<rparr> \<rparr>,
              \<lparr> target = ''http://b1'', FlushInterval = - 1,
                BufferPool = Some \<lparr> pool = [], bufAllocNum = 0 \<rparr> \<rparr>],
           connLimiters = [0, 1], requestNum = 0 \<rparr>,
       semaphores = [\<lparr> sem_size = 10, sem_cur = 0 \<rparr>, \<lparr> sem_size = 10, sem_cur = 0 \<rparr>] \<rparr>"

section \<open>Startup\<close>


lemma add_proxy_shape:
  assumes "add_proxy parse cfg proxyStr s = Inr s'"
  shows "length (proxies (proxyState s')) = Suc (length (proxies (proxyState s)))"
    and "requestNum (proxyState s') = requestNum (proxyState s)"
    and "numConnsPerServer cfg \<noteq> 0 \<Longrightarrow>
           connLimiters (proxyState s') = connLimiters (proxyState s) @ [length (semaphores s)]"
    and "numConnsPerServer cfg \<noteq> 0 \<Longrightarrow>
           semaphores s' = semaphores s @ [NewWeighted (numConnsPerServer cfg)]"
    and "numConnsPerServer cfg = 0 \<Longrightarrow> connLimiters (proxyState s') = connLimiters (proxyState s)"
    and "numConnsPerServer cfg = 0 \<Longrightarrow> semaphores s' = semaphores s"
  using assms
  by (auto simp: add_proxy_def Let_def split: sum.splits if_splits)

lemma upt_shift: "[m..<m + Suc n] = m # [Suc m..<Suc m + n]"
  by (subst upt_conv_Cons) simp_all

lemma add_proxies_shape:
  assumes "add_proxies parse cfg args s = Inr s'"
  shows "length (proxies (proxyState s')) = length (proxies (proxyState s)) + length args
       \<and> requestNum (proxyState s') = requestNum (proxyState s)
       \<and> (numConnsPerServer cfg \<noteq> 0 \<longrightarrow>
            connLimiters (proxyState s') =
              connLimiters (proxyState s) @ [length (semaphores s)..<length (semaphores s) + length args]
          \<and> semaphores s' = semaphores s @ replicate (length args) (NewWeighted (numConnsPerServer cfg)))
       \<and> (numConnsPerServer cfg = 0 \<longrightarrow>
            connLimiters (proxyState s') = connLimiters (proxyState s) \<and> semaphores s' = semaphores s)"
  using assms
proof (induction args arbitrary: s)
  case Nil
  then show ?case by simp
next
  case (Cons a args)
  from Cons.prems obtain s1 where a: "add_proxy parse cfg a s = Inr s1"
    and r: "add_proxies parse cfg args s1 = Inr s'"
    by (auto split: sum.splits)
  note ih = Cons.IH [OF r]
  note sh = add_proxy_shape [OF a]
  show ?case
  proof (cases "numConnsPerServer cfg = 0")
    case True
    with ih sh show ?thesis by simp
  next
    case False
    have u: "[length (semaphores s)..<length (semaphores s) + length (a # args)] =
          length (semaphores s) # [Suc (length (semaphores s))..<Suc (length (semaphores s)) + length args]"
      using upt_shift [of "length (semaphores s)" "length args"] by simp
    from False ih sh have "connLimiters (proxyState s') =
        connLimiters (proxyState s) @ length (semaphores s) #
          [Suc (length (semaphores s))..<Suc (length (semaphores s)) + length args]"
      by simp
    then have c: "connLimiters (proxyState s') = connLimiters (proxyState s) @
        [length (semaphores s)..<length (semaphores s) + length (a # args)]"
      by (simp only: u)
    from False ih sh have m: "semaphores s' = semaphores s @
        replicate (length (a # args)) (NewWeighted (numConnsPerServer cfg))"
      by simp
    from ih sh have "length (proxies (proxyState s')) = length (proxies (proxyState s)) + length (a # args)"
      and "requestNum (proxyState s') = requestNum (proxyState s)"
      by simp_all
    with False c m show ?thesis by blast
  qed
qed

lemma ParseArguments_shape:
  assumes "ParseArguments flags args os_limit = Inr (cfg, os_limit')"
  shows "args \<noteq> []" and "proxyStrings cfg = args"
    and "numConnsPerServer cfg = flag_maxconns flags"
    and "redirectCode cfg = flag_redirect flags"
    and "poolBufSize cfg = flag_bufsize flags"
    and "beVerbose cfg = flag_verbose flags"
  using assms
  by (auto simp: ParseArguments_def SetOpenFilesLimit_def Let_def split: if_splits)

lemma main_shape:
  assumes "main parse flags args os_limit = Inr (cfg, s0)"
  shows "args \<noteq> []" and "proxyStrings cfg = args"
    and "numConnsPerServer cfg = flag_maxconns flags"
    and "redirectCode cfg = flag_redirect flags"
    and "length (proxies (proxyState s0)) = length args"
    and "requestNum (proxyState s0) = 0"
    and "numConnsPerServer cfg \<noteq> 0 \<Longrightarrow> connLimiters (proxyState s0) = [0..<length args]"
    and "numConnsPerServer cfg \<noteq> 0 \<Longrightarrow>
           semaphores s0 = replicate (length args) (NewWeighted (numConnsPerServer cfg))"
    and "numConnsPerServer cfg = 0 \<Longrightarrow> connLimiters (proxyState s0) = []"
    and "numConnsPerServer cfg = 0 \<Longrightarrow> semaphores s0 = []"
proof -
  from assms obtain os' where p: "ParseArguments flags args os_limit = Inr (cfg, os')"
    and i: "InitProxyState parse cfg args zero_Store = Inr s0"
    by (auto simp: main_def split: sum.splits)
  note ps = ParseArguments_shape [OF p]
  from i have "add_proxies parse cfg args
      (zero_Store\<lparr>proxyState := (proxyState zero_Store)\<lparr>requestNum := 0\<rparr>\<rparr>) = Inr s0"
    by (simp add: InitProxyState_def)
  note sh = add_proxies_shape [OF this]
  show "args \<noteq> []" "proxyStrings cfg = args" "numConnsPerServer cfg = flag_maxconns flags"
    "redirectCode cfg = flag_redirect flags"
    using ps by simp_all
  show "length (proxies (proxyState s0)) = length args" "requestNum (proxyState s0) = 0"
    using sh by (simp_all add: zero_Store_def)
  show "numConnsPerServer cfg \<noteq> 0 \<Longrightarrow> connLimiters (proxyState s0) = [0..<length args]"
    "numConnsPerServer cfg \<noteq> 0 \<Longrightarrow>
           semaphores s0 = replicate (length args) (NewWeighted (numConnsPerServer cfg))"
    "numConnsPerServer cfg = 0 \<Longrightarrow> connLimiters (proxyState s0) = []"
    "numConnsPerServer cfg = 0 \<Longrightarrow> semaphores s0 = []"
    using sh by (simp_all add: zero_Store_def)
qed

subsection \<open>The backend index\<close>

lemma uint32_of_length:
  assumes "0 < n" "n < 2 ^ 32"
  shows "(of_nat n :: 32 word) \<noteq> 0" and "unat (of_nat n :: 32 word) = n"
proof -
  show u: "unat (of_nat n :: 32 word) = n"
    using assms by (simp add: unat_of_nat take_bit_nat_eq_self)
  show "(of_nat n :: 32 word) \<noteq> 0"
  proof
    assume "(of_nat n :: 32 word) = 0"
    then have "unat (of_nat n :: 32 word) = 0" by simp
    with u assms show False by simp
  qed
qed

lemma proxy_index_ok:
  assumes "0 < length (proxies (proxyState s))" "length (proxies (proxyState s)) < 2 ^ 32"
  shows "proxy_index s t = Inr (unat t mod length (proxies (proxyState s)))"
  using assms uint32_of_length [OF assms]
  by (simp add: proxy_index_def mod_uint32_def index_slice_def unat_mod_distrib)

section \<open>One request at a time\<close>


lemma selected_append: "selected (xs @ ys) = selected xs @ selected ys"
  by (induction xs rule: selected.induct) simp_all

lemma admit_Admitted:
  assumes "admit cfg s i = Admitted s2 ev"
  shows "proxyState s2 = proxyState s" and "selected ev = []"
    and "length (semaphores s2) = length (semaphores s)"
  using assms
  by (auto simp: admit_def split: if_splits sum.splits option.splits)

lemma release_Inr:
  assumes "release cfg s i = Inr (s3, ev)"
  shows "proxyState s3 = proxyState s" and "selected ev = []"
    and "length (semaphores s3) = length (semaphores s)"
  using assms
  by (auto simp: release_def split: if_splits sum.splits)

lemma release_after_admit:
  assumes "admit cfg s i = Admitted s2 ev" and "release cfg s2 j = Inr (s3, ev')"
  shows "proxyState s3 = proxyState s"
  using admit_Admitted(1) [OF assms(1)] release_Inr(1) [OF assms(2)] by simp

lemma atomic_AddUint32_eq:
  "atomic_AddUint32 s =
     (s\<lparr>proxyState := (proxyState s)\<lparr>requestNum := requestNum (proxyState s) + 1\<rparr>\<rparr>,
      requestNum (proxyState s) + 1)"
  by (simp add: atomic_AddUint32_def Let_def)

lemma proxy_index_ticketed:
  assumes "serving cfg s"
  shows "proxy_index (ticketed s) (requestNum (proxyState s) + 1) = Inr (next_index s)"
  using assms proxy_index_ok [of "ticketed s" "requestNum (proxyState s) + 1"]
  by (simp add: serving_def ticketed_def next_index_def)

lemma ProxyRequestHandler_run:
  assumes "serving cfg s" and "ProxyRequestHandler cfg outcome s r = (s', evs, ending)"
  shows "proxyState s' = proxyState (ticketed s)" and "selected evs = [next_index s]"
proof -
  note ix = proxy_index_ticketed [OF assms(1)]
  have a: "atomic_AddUint32 s = (ticketed s, requestNum (proxyState s) + 1)"
    by (simp add: atomic_AddUint32_eq ticketed_def)
  show "proxyState s' = proxyState (ticketed s)"
    using assms(2) unfolding ProxyRequestHandler_def a
    by (auto simp: ix Let_def split: admission.splits prod.splits if_splits sum.splits
        intro: admit_Admitted(1) release_after_admit)
  show "selected evs = [next_index s]"
    using assms(2) unfolding ProxyRequestHandler_def a
    by (auto simp: ix Let_def selected_append
        split: admission.splits prod.splits if_splits sum.splits
        dest: admit_Admitted(2) release_Inr(2))
qed

lemma RedirectHandler_run:
  assumes "serving cfg s"
  shows "RedirectHandler cfg s r =
           (ticketed s,
            [Selected (next_index s),
             Redirected (proxyStrings cfg ! next_index s @ URL r) (redirectCode cfg)],
            Returned)"
proof -
  let ?n = "length (proxies (proxyState s))"
  from assms have n: "0 < ?n" "?n < 2 ^ 32" "length (proxyStrings cfg) = ?n"
    by (simp_all add: serving_def)
  note u = uint32_of_length [OF n(1,2)]
  have lt: "next_index s < ?n" using n(1) by (simp add: next_index_def)
  have m: "unat ((requestNum (proxyState s) + 1) mod (of_nat ?n :: 32 word)) = next_index s"
    by (simp add: unat_mod_distrib u next_index_def)
  show ?thesis
    using u(1) lt n(3)
    by (simp add: RedirectHandler_def atomic_AddUint32_eq mod_uint32_def index_slice_def
        verbose_line_def m ticketed_def)
qed

lemma registered_handler_run:
  assumes "serving cfg s" and "registered_handler cfg outcome s r = (s', evs, ending)"
  shows "proxyState s' = proxyState (ticketed s)" and "selected evs = [next_index s]"
  using assms ProxyRequestHandler_run [OF assms(1), of outcome r s' evs ending]
    RedirectHandler_run [OF assms(1), of r]
  by (auto simp: registered_handler_def split: if_splits)

lemma serving_step:
  assumes "serving cfg s" "proxyState s' = proxyState (ticketed s)"
  shows "serving cfg s'"
  using assms by (simp add: serving_def ticketed_def)

lemma serve_sequentially_selected:
  assumes "serving cfg s"
  shows "selected (snd (serve_sequentially cfg s rs)) =
           map (\<lambda>k. unat (requestNum (proxyState s) + 1 + of_nat k)
                      mod length (proxies (proxyState s))) [0..<length rs]"
  using assms
proof (induction rs arbitrary: s)
  case Nil
  then show ?case by simp
next
  case (Cons a rs)
  obtain outcome r where a: "a = (outcome, r)" by (cases a)
  obtain s1 evs ending where h: "registered_handler cfg outcome s r = (s1, evs, ending)"
    by (cases "registered_handler cfg outcome s r")
  obtain s2 later where l: "serve_sequentially cfg s1 rs = (s2, later)"
    by (cases "serve_sequentially cfg s1 rs")
  note run = registered_handler_run [OF Cons.prems h]
  have sv: "serving cfg s1" using serving_step [OF Cons.prems run(1)] .
  have ps: "requestNum (proxyState s1) = requestNum (proxyState s) + 1"
    "proxies (proxyState s1) = proxies (proxyState s)"
    using run(1) by (simp_all add: ticketed_def)
  have "selected later = map (\<lambda>k. unat (requestNum (proxyState s) + 1 + 1 + of_nat k)
                      mod length (proxies (proxyState s))) [0..<length rs]"
    using Cons.IH [OF sv] l ps by simp
  then show ?case
    using run(2) h l a
    by (simp add: selected_append next_index_def map_upt_Suc ac_simps del: upt_Suc)
qed

section \<open>Interleaved requests\<close>

lemma count_list_update:
  "i < length ts \<Longrightarrow>
     count_list (ts[i := q]) x + (if ts ! i = x then 1 else 0) =
     count_list ts x + (if q = x then 1 else 0)"
proof (induction ts arbitrary: i)
  case Nil
  then show ?case by simp
next
  case (Cons t ts)
  show ?case
  proof (cases i)
    case 0
    then show ?thesis by simp
  next
    case (Suc j)
    with Cons.prems have "j < length ts" by simp
    from Cons.IH [OF this] Suc show ?thesis by (auto split: if_splits)
  qed
qed

lemma holds_count: "holds p b = (if p = Forwarding b then 1 else 0) + (if p = Releasing b then 1 else 0)"
  by (cases p) auto

lemma holders_update:
  assumes "i < length ts"
  shows "holders (ts[i := q]) b + holds (ts ! i) b = holders ts b + holds q b"
  using count_list_update [OF assms, of q "Forwarding b"]
    count_list_update [OF assms, of q "Releasing b"]
  unfolding holders_def holds_count by linarith

lemma holders_append_Arrived: "holders (ts @ [Arrived]) b = holders ts b"
  by (simp add: holders_def)

lemma task_step_effect:
  assumes "task_step cfg outcome s p = Some (s', p')"
    and "numConnsPerServer cfg \<noteq> 0"
    and "connLimiters (proxyState s) = [0..<n]"
    and "length (semaphores s) = n"
  shows "connLimiters (proxyState s') = [0..<n]"
    and "length (semaphores s') = n"
    and "b < n \<Longrightarrow> sem_size (semaphores s' ! b) = sem_size (semaphores s ! b)"
    and "b < n \<Longrightarrow> int (holds p' b) - int (holds p b)
                    \<le> sem_cur (semaphores s' ! b) - sem_cur (semaphores s ! b)"
    and "b < n \<Longrightarrow> sem_cur (semaphores s' ! b) \<le> sem_cur (semaphores s ! b)
                  \<or> sem_cur (semaphores s' ! b) \<le> sem_size (semaphores s ! b)"
    and "n \<le> b \<Longrightarrow> holds p' b \<le> holds p b"
proof -
  have "connLimiters (proxyState s') = [0..<n] \<and> length (semaphores s') = n \<and>
     (b < n \<longrightarrow> sem_size (semaphores s' ! b) = sem_size (semaphores s ! b) \<and>
        int (holds p' b) - int (holds p b)
           \<le> sem_cur (semaphores s' ! b) - sem_cur (semaphores s ! b) \<and>
        (sem_cur (semaphores s' ! b) \<le> sem_cur (semaphores s ! b)
          \<or> sem_cur (semaphores s' ! b) \<le> sem_size (semaphores s ! b))) \<and>
     (n \<le> b \<longrightarrow> holds p' b \<le> holds p b)"
  proof (cases p)
    case Arrived
    with assms show ?thesis
      by (auto simp: atomic_AddUint32_eq split: sum.splits)
  next
    case (AdmissionPending i)
    with assms show ?thesis
      by (auto simp: admit_def index_slice_def Acquire_def nth_list_update
          split: admission.splits if_splits)
  next
    case (Forwarding i)
    with assms show ?thesis
      by (auto split: if_splits)
  next
    case (Releasing i)
    with assms show ?thesis
      by (auto simp: release_def index_slice_def Release_def nth_list_update
          split: sum.splits if_splits)
  next
    case HasReturned
    with assms show ?thesis by simp
  next
    case HasPanicked
    with assms show ?thesis by simp
  qed
  then show "connLimiters (proxyState s') = [0..<n]"
    and "length (semaphores s') = n"
    and "b < n \<Longrightarrow> sem_size (semaphores s' ! b) = sem_size (semaphores s ! b)"
    and "b < n \<Longrightarrow> int (holds p' b) - int (holds p b)
                    \<le> sem_cur (semaphores s' ! b) - sem_cur (semaphores s ! b)"
    and "b < n \<Longrightarrow> sem_cur (semaphores s' ! b) \<le> sem_cur (semaphores s ! b)
                  \<or> sem_cur (semaphores s' ! b) \<le> sem_size (semaphores s ! b)"
    and "n \<le> b \<Longrightarrow> holds p' b \<le> holds p b"
    by blast+
qed

lemma admission_inv_step:
  assumes "step cfg w w'" and "numConnsPerServer cfg \<noteq> 0" and "admission_inv cfg n w"
  shows "admission_inv cfg n w'"
  using assms(1)
proof (cases rule: step.cases)
  case arrive
  with assms(3) show ?thesis
    by (simp add: admission_inv_def holders_append_Arrived)
next
  case (run i outcome s' p')
  from assms(3) have wf: "connLimiters (proxyState (store w)) = [0..<n]"
    "length (semaphores (store w)) = n"
    by (simp_all add: admission_inv_def)
  note eff = task_step_effect [OF run(3) assms(2) wf]
  have upd: "\<And>b. holders ((tasks w)[i := p']) b + holds (tasks w ! i) b
                   = holders (tasks w) b + holds p' b"
    using holders_update [OF run(2)] .
  have low: "\<forall>b<n. sem_size (semaphores s' ! b) = numConnsPerServer cfg \<and>
            int (holders ((tasks w)[i := p']) b) \<le> sem_cur (semaphores s' ! b) \<and>
            sem_cur (semaphores s' ! b) \<le> max 0 (numConnsPerServer cfg)"
  proof (intro allI impI)
    fix b assume b: "b < n"
    from assms(3) b have old: "sem_size (semaphores (store w) ! b) = numConnsPerServer cfg"
      "int (holders (tasks w) b) \<le> sem_cur (semaphores (store w) ! b)"
      "sem_cur (semaphores (store w) ! b) \<le> max 0 (numConnsPerServer cfg)"
      by (simp_all add: admission_inv_def)
    from eff(3) [OF b] old(1) have 1: "sem_size (semaphores s' ! b) = numConnsPerServer cfg"
      by simp
    from eff(4) [OF b] upd [of b] old(2)
    have 2: "int (holders ((tasks w)[i := p']) b) \<le> sem_cur (semaphores s' ! b)"
      by linarith
    from eff(5) [OF b] old(1,3)
    have 3: "sem_cur (semaphores s' ! b) \<le> max 0 (numConnsPerServer cfg)"
      by linarith
    from 1 2 3 show "sem_size (semaphores s' ! b) = numConnsPerServer cfg \<and>
            int (holders ((tasks w)[i := p']) b) \<le> sem_cur (semaphores s' ! b) \<and>
            sem_cur (semaphores s' ! b) \<le> max 0 (numConnsPerServer cfg)"
      by blast
  qed
  have high: "\<forall>b\<ge>n. holders ((tasks w)[i := p']) b = 0"
  proof (intro allI impI)
    fix b assume b: "n \<le> b"
    from assms(3) b have "holders (tasks w) b = 0" by (simp add: admission_inv_def)
    with eff(6) [OF b] upd [of b] show "holders ((tasks w)[i := p']) b = 0" by linarith
  qed
  from eff(1,2) low high run(1) show ?thesis
    by (simp add: admission_inv_def)
qed

lemma admission_inv_reachable:
  assumes "(step cfg)\<^sup>*\<^sup>* w0 w" and "numConnsPerServer cfg \<noteq> 0" and "admission_inv cfg n w0"
  shows "admission_inv cfg n w"
  using assms(1)
proof (induction rule: rtranclp_induct)
  case base
  from assms(3) show ?case .
next
  case (step y z)
  from admission_inv_step [OF step.hyps(2) assms(2) step.IH] show ?case .
qed

lemma admission_inv_main:
  assumes "main parse flags args os_limit = Inr (cfg, s0)" and "numConnsPerServer cfg \<noteq> 0"
  shows "admission_inv cfg (length args) \<lparr> store = s0, tasks = [] \<rparr>"
  using main_shape(7,8) [OF assms]
  by (simp add: admission_inv_def holders_def NewWeighted_def)

lemma forwards_bounded:
  assumes "main parse flags args os_limit = Inr (cfg, s0)" and "numConnsPerServer cfg \<noteq> 0"
    and "(step cfg)\<^sup>*\<^sup>* \<lparr> store = s0, tasks = [] \<rparr> w"
  shows "int (holders (tasks w) b) \<le> max 0 (numConnsPerServer cfg)"
proof -
  note inv = admission_inv_reachable [OF assms(3,2) admission_inv_main [OF assms(1,2)]]
  show ?thesis
  proof (cases "b < length args")
    case True
    with inv show ?thesis by (auto simp: admission_inv_def)
  next
    case False
    with inv have "holders (tasks w) b = 0" by (simp add: admission_inv_def)
    then show ?thesis by simp
  qed
qed

lemma play_steps: "play cfg ms w = Some w' \<Longrightarrow> (step cfg)\<^sup>*\<^sup>* w w'"
proof (induction cfg ms w rule: play.induct)
  case (1 cfg w)
  then show ?case by simp
next
  case (2 cfg ms w)
  have "step cfg w (w\<lparr>tasks := tasks w @ [Arrived]\<rparr>)" by (rule step.arrive)
  moreover from 2 have "(step cfg)\<^sup>*\<^sup>* (w\<lparr>tasks := tasks w @ [Arrived]\<rparr>) w'" by simp
  ultimately show ?case by (rule converse_rtranclp_into_rtranclp)
next
  case (3 cfg i outcome ms w)
  from "3.prems" have i: "i < length (tasks w)" by (simp split: if_splits)
  with "3.prems" obtain s' pc' where t: "task_step cfg outcome (store w) (tasks w ! i) = Some (s', pc')"
    and p: "play cfg ms \<lparr> store = s', tasks = (tasks w)[i := pc'] \<rparr> = Some w'"
    by (auto split: option.splits)
  have "step cfg w \<lparr> store = s', tasks = (tasks w)[i := pc'] \<rparr>"
    using i t by (rule step.run)
  moreover have "(step cfg)\<^sup>*\<^sup>* \<lparr> store = s', tasks = (tasks w)[i := pc'] \<rparr> w'"
    using "3.IH" [OF i t refl p] .
  ultimately show ?case by (rule converse_rtranclp_into_rtranclp)
qed

lemma serving_main:
  assumes "main parse flags args os_limit = Inr (cfg, s0)" and "length args < 2 ^ 32"
    and "proxies (proxyState s) = proxies (proxyState s0)"
  shows "serving cfg s" and "length (proxies (proxyState s)) = length args"
  using main_shape(1,2,5) [OF assms(1)] assms(2,3)
  by (simp_all add: serving_def)

lemma unat_ticket_no_wrap:
  assumes "unat (t :: 32 word) + Suc k < 2 ^ 32"
  shows "unat (t + 1 + of_nat k) = unat t + 1 + k"
proof -
  have "t + 1 + of_nat k = t + of_nat (Suc k)" by simp
  moreover have "unat (of_nat (Suc k) :: 32 word) = Suc k"
    using assms by (simp add: unat_of_nat take_bit_nat_eq_self del: of_nat_Suc)
  moreover have "unat (t + of_nat (Suc k)) = unat t + unat (of_nat (Suc k) :: 32 word)"
    using assms calculation(2) by (simp add: unat_add_lem [THEN iffD1] del: of_nat_Suc)
  ultimately show ?thesis by (simp add: add.assoc)
qed

section \<open>The example deployments are what main builds\<close>

lemma two_servers_main:
  "main Some default_flags [''http://192.168.0.1'', ''http://192.168.0.2''] usual_limit =
     Inr (two_servers_config, two_servers_store)"
  by (simp add: main_def ParseArguments_def default_flags_def usual_limit_def Let_def
      InitProxyState_def zero_Store_def add_proxy_def NewProxy_def NewProxyBufferPool_def
      NewWeighted_def two_servers_config_def two_servers_store_def)

lemma redirecting_main:
  "main Some (default_flags\<lparr>flag_redirect := 302\<rparr>) [''http://b0'', ''http://b1''] usual_limit =
     Inr (redirecting_config, redirecting_store)"
  by (simp add: main_def ParseArguments_def default_flags_def usual_limit_def Let_def
      InitProxyState_def zero_Store_def add_proxy_def NewProxy_def NewProxyBufferPool_def
      NewWeighted_def redirecting_config_def redirecting_store_def)

lemma one_server_main:
  "main Some (default_flags\<lparr>flag_maxconns := 1\<rparr>) [''http://192.168.0.1''] usual_limit =
     Inr (one_server_config, one_server_store)"
  by (simp add: main_def ParseArguments_def default_flags_def usual_limit_def Let_def
      InitProxyState_def zero_Store_def add_proxy_def NewProxy_def NewProxyBufferPool_def
      NewWeighted_def one_server_config_def one_server_store_def)

section \<open>The claims\<close>

subsection \<open>C1: forwards per backend stay within the cap\<close>

lemma count_le_holders: "count_list ts (Forwarding b) \<le> holders ts b"
  by (simp add: holders_def)

text \<open>
  C1. Start the server with a cap \<open>C > 0\<close> and let any number of requests arrive and their
  handlers interleave in any way, with forwards ending in any of the three ways. In every
  state the server can reach, and for every backend \<open>b\<close>, the tasks that are inside the
  forward to \<open>b\<close> (between taking the permit and leaving \<^verbatim>\<open>ServeHTTP\<close>) number at most
  \<open>C\<close>.
\<close>

theorem C1_forwards_within_cap:
  assumes "main parse flags args os_limit = Inr (cfg, s0)"
    and "0 < numConnsPerServer cfg"
    and "(step cfg)\<^sup>*\<^sup>* \<lparr> store = s0, tasks = [] \<rparr> w"
  shows "int (count_list (tasks w) (Forwarding b)) \<le> numConnsPerServer cfg"
proof -
  from assms(2) have nz: "numConnsPerServer cfg \<noteq> 0" by simp
  from forwards_bounded [OF assms(1) nz assms(3), of b] assms(2)
  have "int (holders (tasks w) b) \<le> numConnsPerServer cfg" by simp
  with count_le_holders [of "tasks w" b] show ?thesis by linarith
qed

text \<open>
  One server with cap 1 and two requests: the first is forwarding, the second has its index
  and waits.
\<close>

lemma one_server_play:
  "play one_server_config
     [Arrive, Arrive, Run 0 Completed, Run 1 Completed, Run 0 Completed]
     \<lparr> store = one_server_store, tasks = [] \<rparr> =
   Some \<lparr> store = one_server_store
                  \<lparr>proxyState := (proxyState one_server_store)\<lparr>requestNum := 2\<rparr>,
                   semaphores := [\<lparr> sem_size = 1, sem_cur = 1 \<rparr>]\<rparr>,
          tasks = [Forwarding 0, AdmissionPending 0] \<rparr>"
  by (simp add: one_server_config_def one_server_store_def atomic_AddUint32_def
      proxy_index_def mod_uint32_def index_slice_def admit_def Acquire_def Let_def)

theorem C1_forwards_within_cap_witness:
  "main Some (default_flags\<lparr>flag_maxconns := 1\<rparr>) [''http://192.168.0.1''] usual_limit =
     Inr (one_server_config, one_server_store)
   \<and> 0 < numConnsPerServer one_server_config
   \<and> (step one_server_config)\<^sup>*\<^sup>* \<lparr> store = one_server_store, tasks = [] \<rparr>
        \<lparr> store = one_server_store
                  \<lparr>proxyState := (proxyState one_server_store)\<lparr>requestNum := 2\<rparr>,
                   semaphores := [\<lparr> sem_size = 1, sem_cur = 1 \<rparr>]\<rparr>,
          tasks = [Forwarding 0, AdmissionPending 0] \<rparr>
   \<and> int (count_list [Forwarding 0, AdmissionPending 0] (Forwarding 0)) \<le> 1"
proof -
  have c: "0 < numConnsPerServer one_server_config" by (simp add: one_server_config_def)
  note r = play_steps [OF one_server_play]
  from C1_forwards_within_cap [OF one_server_main c r, of 0] one_server_main c r
  show ?thesis by (simp add: one_server_config_def)
qed

subsection \<open>C2: the permit after an aborted forward\<close>

text \<open>
  C2 asks that a handler which took a permit gives it back on every way out of the forward.
  The code gives it back after every forward that returns, but \<^verbatim>\<open>limiter.Release(1)\<close>
  is an ordinary statement after \<^verbatim>\<open>proxy.ServeHTTP(w, r)\<close>, not a deferred call, so the
  way out by a panic misses it. One server with cap 1: a request whose forward is aborted
  while the body is copied leaves the handler with the permit still taken and nobody left to
  return it; the next request for that backend computes its index and then waits in
  \<^verbatim>\<open>Acquire\<close> for good. The last line is the same first request with a forward that
  returns: there the permit comes back.
\<close>

theorem C2_permit_kept_after_abort:
  "main Some (default_flags\<lparr>flag_maxconns := 1\<rparr>) [''http://192.168.0.1''] usual_limit =
     Inr (one_server_config, one_server_store)
   \<and> ProxyRequestHandler one_server_config AbortHandler one_server_store get_x =
       (one_server_store\<lparr>proxyState := (proxyState one_server_store)\<lparr>requestNum := 1\<rparr>,
                         semaphores := [\<lparr> sem_size = 1, sem_cur = 1 \<rparr>]\<rparr>,
        [Selected 0, Acquired 0, Forwarded 0 get_x], Panicked)
   \<and> ProxyRequestHandler one_server_config Completed
        (one_server_store\<lparr>proxyState := (proxyState one_server_store)\<lparr>requestNum := 1\<rparr>,
                          semaphores := [\<lparr> sem_size = 1, sem_cur = 1 \<rparr>]\<rparr>) get_x =
       (one_server_store\<lparr>proxyState := (proxyState one_server_store)\<lparr>requestNum := 2\<rparr>,
                         semaphores := [\<lparr> sem_size = 1, sem_cur = 1 \<rparr>]\<rparr>,
        [Selected 0], Blocked)
   \<and> ProxyRequestHandler one_server_config Completed one_server_store get_x =
       (one_server_store\<lparr>proxyState := (proxyState one_server_store)\<lparr>requestNum := 1\<rparr>,
                         semaphores := [\<lparr> sem_size = 1, sem_cur = 0 \<rparr>]\<rparr>,
        [Selected 0, Acquired 0, Forwarded 0 get_x, Released 0], Returned)"
proof -
  have a: "ProxyRequestHandler one_server_config AbortHandler one_server_store get_x =
       (one_server_store\<lparr>proxyState := (proxyState one_server_store)\<lparr>requestNum := 1\<rparr>,
                         semaphores := [\<lparr> sem_size = 1, sem_cur = 1 \<rparr>]\<rparr>,
        [Selected 0, Acquired 0, Forwarded 0 get_x], Panicked)"
    by (simp add: ProxyRequestHandler_def one_server_config_def one_server_store_def
        atomic_AddUint32_def proxy_index_def mod_uint32_def index_slice_def admit_def
        Acquire_def forward_def verbose_line_def Let_def)
  have b: "ProxyRequestHandler one_server_config Completed
        (one_server_store\<lparr>proxyState := (proxyState one_server_store)\<lparr>requestNum := 1\<rparr>,
                          semaphores := [\<lparr> sem_size = 1, sem_cur = 1 \<rparr>]\<rparr>) get_x =
       (one_server_store\<lparr>proxyState := (proxyState one_server_store)\<lparr>requestNum := 2\<rparr>,
                         semaphores := [\<lparr> sem_size = 1, sem_cur = 1 \<rparr>]\<rparr>,
        [Selected 0], Blocked)"
    by (simp add: ProxyRequestHandler_def one_server_config_def one_server_store_def
        atomic_AddUint32_def proxy_index_def mod_uint32_def index_slice_def admit_def
        Acquire_def Let_def)
  have c: "ProxyRequestHandler one_server_config Completed one_server_store get_x =
       (one_server_store\<lparr>proxyState := (proxyState one_server_store)\<lparr>requestNum := 1\<rparr>,
                         semaphores := [\<lparr> sem_size = 1, sem_cur = 0 \<rparr>]\<rparr>,
        [Selected 0, Acquired 0, Forwarded 0 get_x, Released 0], Returned)"
    by (simp add: ProxyRequestHandler_def one_server_config_def one_server_store_def
        atomic_AddUint32_def proxy_index_def mod_uint32_def index_slice_def admit_def
        Acquire_def forward_def verbose_line_def release_def Release_def Let_def)
  from one_server_main a b c show ?thesis by simp
qed

subsection \<open>C3: the order in which backends are selected\<close>

text \<open>
  C3, as the code has it. \<^verbatim>\<open>atomic.AddUint32\<close> returns the counter after the
  increment, so a request served when the counter holds \<open>T\<close> draws ticket \<open>T + 1\<close>. With
  \<open>N\<close> backends (\<open>0 < N < 2^32\<close>), the \<open>k\<close>-th of \<open>M\<close> requests served one after the other
  (\<open>k = 0, ..., M - 1\<close>) selects backend \<open>((T + 1 + k) mod 2^32) mod N\<close>; as long as the counter
  does not wrap (\<open>T + M < 2^32\<close>) that is \<open>(T + 1 + k) mod N\<close>. From the initial counter 0 the
  indices therefore run 1, 2, ..., N - 1, 0, 1, ...: the cycle starts at index \<open>1 mod N\<close>, not
  at index 0. This holds for both handlers and whatever becomes of each request afterwards.
\<close>

theorem C3_round_robin_sequence:
  assumes "main parse flags args os_limit = Inr (cfg, s0)" and "length args < 2 ^ 32"
    and "proxies (proxyState s) = proxies (proxyState s0)"
  shows "selected (snd (serve_sequentially cfg s rs)) =
           map (\<lambda>k. unat (requestNum (proxyState s) + 1 + of_nat k) mod length args)
               [0..<length rs]
       \<and> (unat (requestNum (proxyState s)) + length rs < 2 ^ 32 \<longrightarrow>
            selected (snd (serve_sequentially cfg s rs)) =
              map (\<lambda>k. (unat (requestNum (proxyState s)) + 1 + k) mod length args)
                  [0..<length rs])"
proof -
  note sv = serving_main [OF assms]
  have a: "selected (snd (serve_sequentially cfg s rs)) =
           map (\<lambda>k. unat (requestNum (proxyState s) + 1 + of_nat k) mod length args)
               [0..<length rs]"
    using serve_sequentially_selected [OF sv(1), of rs] sv(2) by simp
  have b: "selected (snd (serve_sequentially cfg s rs)) =
              map (\<lambda>k. (unat (requestNum (proxyState s)) + 1 + k) mod length args)
                  [0..<length rs]"
    if nw: "unat (requestNum (proxyState s)) + length rs < 2 ^ 32"
  proof -
    have "unat (requestNum (proxyState s) + 1 + of_nat k) = unat (requestNum (proxyState s)) + 1 + k"
      if "k < length rs" for k
      using that nw by (intro unat_ticket_no_wrap) simp
    then show ?thesis unfolding a by simp
  qed
  from a b show ?thesis by blast
qed

text \<open>Two servers, three requests from the initial counter: backends 1, 0, 1.\<close>

theorem C3_round_robin_sequence_witness:
  "main Some default_flags [''http://192.168.0.1'', ''http://192.168.0.2''] usual_limit =
     Inr (two_servers_config, two_servers_store)
   \<and> length [''http://192.168.0.1'', ''http://192.168.0.2''] < (2::nat) ^ 32
   \<and> unat (requestNum (proxyState two_servers_store)) + length [(Completed, get_x), (BadGateway, get_x), (AbortHandler, get_x)] < 2 ^ 32
   \<and> selected (snd (serve_sequentially two_servers_config two_servers_store
        [(Completed, get_x), (BadGateway, get_x), (AbortHandler, get_x)])) = [1, 0, 1]"
proof -
  have len: "length [''http://192.168.0.1'', ''http://192.168.0.2''] < (2::nat) ^ 32" by simp
  have t: "requestNum (proxyState two_servers_store) = 0"
    by (simp add: two_servers_store_def)
  have ev: "map (\<lambda>k. unat ((0 :: 32 word) + 1 + of_nat k)
                   mod length [''http://192.168.0.1'', ''http://192.168.0.2''])
              [0..<length [(Completed, get_x), (BadGateway, get_x), (AbortHandler, get_x)]]
            = [1, 0, 1]"
    by code_simp
  from C3_round_robin_sequence [OF two_servers_main len refl,
      of "[(Completed, get_x), (BadGateway, get_x), (AbortHandler, get_x)]"]
  have "selected (snd (serve_sequentially two_servers_config two_servers_store
        [(Completed, get_x), (BadGateway, get_x), (AbortHandler, get_x)])) = [1, 0, 1]"
    unfolding t ev by (rule conjunct1)
  with two_servers_main len t show ?thesis by simp
qed

text \<open>
  C3 as stated fails: with \<open>N = 2\<close> and the initial counter \<open>T = 0\<close>, three requests
  select 1, 0, 1, while \<open>[(T + k) mod N for k in 0..2]\<close> is 0, 1, 0.
\<close>

theorem C3_starts_at_zero_counterexample:
  "main Some default_flags [''http://192.168.0.1'', ''http://192.168.0.2''] usual_limit =
     Inr (two_servers_config, two_servers_store)
   \<and> requestNum (proxyState two_servers_store) = 0
   \<and> selected (snd (serve_sequentially two_servers_config two_servers_store
        [(Completed, get_x), (Completed, get_x), (Completed, get_x)])) = [1, 0, 1]
   \<and> [1, 0, 1] \<noteq> [(0 + 0) mod 2, (0 + 1) mod 2, (0 + 2) mod (2 :: nat)]"
proof -
  have "selected (snd (serve_sequentially two_servers_config two_servers_store
        [(Completed, get_x), (Completed, get_x), (Completed, get_x)])) = [1, 0, 1]"
    by (simp add: two_servers_config_def two_servers_store_def registered_handler_def
        ProxyRequestHandler_def atomic_AddUint32_def proxy_index_def mod_uint32_def
        index_slice_def admit_def Acquire_def forward_def verbose_line_def release_def
        Release_def Let_def)
  with two_servers_main show ?thesis by (simp add: two_servers_store_def)
qed

subsection \<open>C4: redirects to two backends\<close>

text \<open>What \<^verbatim>\<open>RedirectHandler\<close> answers on a store that \<^verbatim>\<open>main\<close> set up.\<close>

lemma RedirectHandler_started:
  assumes "main parse flags args os_limit = Inr (cfg, s0)" and "length args < 2 ^ 32"
    and "proxies (proxyState s) = proxies (proxyState s0)"
  shows "RedirectHandler cfg s r =
           (ticketed s,
            [Selected (unat (requestNum (proxyState s) + 1) mod length args),
             Redirected (args ! (unat (requestNum (proxyState s) + 1) mod length args) @ URL r)
                        (redirectCode cfg)],
            Returned)"
  using RedirectHandler_run [OF serving_main(1) [OF assms], of r]
    serving_main(2) [OF assms] main_shape(2) [OF assms(1)]
  by (simp add: next_index_def)

text \<open>
  C4, as the code has it. In redirect mode with the two backends \<open>[B0, B1]\<close> and redirect
  code 302, from the initial counter, the first request is redirected with 302 to \<open>B1\<close>
  followed by its path and query, the second to \<open>B0\<close> followed by its own, the third to
  \<open>B1\<close> again: the first ticket is 1, and \<open>1 mod 2 = 1\<close>.
\<close>

theorem C4_redirects_alternate:
  assumes "main parse flags [B0, B1] os_limit = Inr (cfg, s0)" and "flag_redirect flags = 302"
  shows "snd (serve_sequentially cfg s0 [(o1, r1), (o2, r2), (o3, r3)]) =
           [Selected 1, Redirected (B1 @ URL r1) 302,
            Selected 0, Redirected (B0 @ URL r2) 302,
            Selected 1, Redirected (B1 @ URL r3) 302]"
proof -
  have len: "length [B0, B1] < (2::nat) ^ 32" by simp
  have code: "redirectCode cfg = 302" using main_shape(4) [OF assms(1)] assms(2) by simp
  have t0: "requestNum (proxyState s0) = 0" using main_shape(6) [OF assms(1)] .
  have h: "registered_handler cfg outcome s r =
             (ticketed s,
              [Selected (unat (requestNum (proxyState s) + 1) mod 2),
               Redirected ([B0, B1] ! (unat (requestNum (proxyState s) + 1) mod 2) @ URL r) 302],
              Returned)"
    if "proxies (proxyState s) = proxies (proxyState s0)" for outcome s r
    using RedirectHandler_started [OF assms(1) len that, of r] code
    by (simp add: registered_handler_def numeral_2_eq_2)
  have p1: "proxies (proxyState (ticketed s0)) = proxies (proxyState s0)"
    and p2: "proxies (proxyState (ticketed (ticketed s0))) = proxies (proxyState s0)"
    by (simp_all add: ticketed_def)
  have n1: "requestNum (proxyState (ticketed s0)) = 1"
    and n2: "requestNum (proxyState (ticketed (ticketed s0))) = 2"
    using t0 by (simp_all add: ticketed_def)
  show ?thesis
    by (simp add: h [OF refl] h [OF p1] h [OF p2] t0 n1 n2)
qed

text \<open>The servers \<open>http://b0\<close> and \<open>http://b1\<close>, three requests for \<open>/x\<close>.\<close>

theorem C4_redirects_alternate_witness:
  "main Some (default_flags\<lparr>flag_redirect := 302\<rparr>) [''http://b0'', ''http://b1''] usual_limit =
     Inr (redirecting_config, redirecting_store)
   \<and> flag_redirect (default_flags\<lparr>flag_redirect := 302\<rparr>) = 302
   \<and> snd (serve_sequentially redirecting_config redirecting_store
             [(Completed, get_x), (Completed, get_x), (Completed, get_x)]) =
       [Selected 1, Redirected ''http://b1/x'' 302,
        Selected 0, Redirected ''http://b0/x'' 302,
        Selected 1, Redirected ''http://b1/x'' 302]"
proof -
  have f: "flag_redirect (default_flags\<lparr>flag_redirect := 302\<rparr>) = 302" by simp
  from C4_redirects_alternate [OF redirecting_main f, of Completed get_x Completed get_x Completed get_x]
    redirecting_main f
  show ?thesis by (simp add: get_x_def)
qed

text \<open>
  C4 as stated fails at the first request: it is redirected to \<open>http://b1/x\<close>, not to
  \<open>B0\<close> followed by the path.
\<close>

theorem C4_first_redirect_counterexample:
  "main Some (default_flags\<lparr>flag_redirect := 302\<rparr>) [''http://b0'', ''http://b1''] usual_limit =
     Inr (redirecting_config, redirecting_store)
   \<and> snd (RedirectHandler redirecting_config redirecting_store get_x) =
       ([Selected 1, Redirected ''http://b1/x'' 302], Returned)
   \<and> ''http://b1/x'' \<noteq> ''http://b0'' @ URL get_x"
proof -
  have "snd (RedirectHandler redirecting_config redirecting_store get_x) =
       ([Selected 1, Redirected ''http://b1/x'' 302], Returned)"
    by (simp add: RedirectHandler_def atomic_AddUint32_def mod_uint32_def index_slice_def
        verbose_line_def redirecting_config_def redirecting_store_def get_x_def Let_def)
  with redirecting_main show ?thesis by (simp add: get_x_def)
qed

subsection \<open>C5: one ticket per request\<close>



subsection \<open>C6: the length of pooled buffers\<close>

lemma sync_Pool_Get_rest: "set (snd (sync_Pool_Get pick xs)) \<subseteq> set xs"
proof (cases pick)
  case None
  then show ?thesis by (simp add: sync_Pool_Get_def)
next
  case (Some i)
  have "set (take i xs @ drop (Suc i) xs) \<subseteq> set xs"
    using set_take_subset [of i xs] set_drop_subset [of "Suc i" xs] by auto
  with Some show ?thesis by (simp add: sync_Pool_Get_def)
qed

lemma sync_Pool_Get_hit: "fst (sync_Pool_Get pick xs) = Some x \<Longrightarrow> x \<in> set xs"
  by (auto simp: sync_Pool_Get_def split: option.splits if_splits)

lemma Get_succeeds:
  assumes "0 \<le> poolBufSize cfg"
  shows "\<exists>buf bufPool'. Get cfg pick bufPool = Inr (buf, bufPool') \<and>
           set (pool bufPool') \<subseteq> set (pool bufPool) \<and>
           (case fst (sync_Pool_Get pick (pool bufPool)) of
              None \<Rightarrow> buf = replicate (nat (poolBufSize cfg)) 0
            | Some cached \<Rightarrow> buf = cached \<and> cached \<in> set (pool bufPool))"
proof (cases "sync_Pool_Get pick (pool bufPool)")
  case (Pair got rest)
  from sync_Pool_Get_rest [of pick "pool bufPool"] Pair
  have r: "set rest \<subseteq> set (pool bufPool)" by simp
  show ?thesis
  proof (cases got)
    case None
    with Pair r assms show ?thesis
      by (simp add: Get_def make_bytes_def Let_def)
  next
    case (Some cached)
    from sync_Pool_Get_hit [of pick "pool bufPool" cached] Pair Some
    have "cached \<in> set (pool bufPool)" by simp
    with Pair Some r show ?thesis by (simp add: Get_def)
  qed
qed

lemma pool_history_succeeds:
  assumes "0 \<le> poolBufSize cfg"
  shows "\<exists>bufPool'. pool_history cfg calls bufPool = Inr bufPool' \<and>
           set (pool bufPool') \<subseteq> set (pool bufPool) \<union> set (put_buffers calls)"
proof (induction calls arbitrary: bufPool)
  case Nil
  show ?case by simp
next
  case (Cons call calls)
  show ?case
  proof (cases call)
    case (CallGet pick)
    from Get_succeeds [OF assms, of pick bufPool] obtain buf bp1
      where g: "Get cfg pick bufPool = Inr (buf, bp1)"
        and s: "set (pool bp1) \<subseteq> set (pool bufPool)"
      by blast
    from Cons.IH [of bp1] obtain bp2 where "pool_history cfg calls bp1 = Inr bp2"
      and "set (pool bp2) \<subseteq> set (pool bp1) \<union> set (put_buffers calls)"
      by blast
    with g s CallGet show ?thesis by auto
  next
    case (CallPut buf)
    from Cons.IH [of "Put buf bufPool"] obtain bp2
      where "pool_history cfg calls (Put buf bufPool) = Inr bp2"
        and "set (pool bp2) \<subseteq> set (pool (Put buf bufPool)) \<union> set (put_buffers calls)"
      by blast
    with CallPut show ?thesis by (auto simp: Put_def sync_Pool_Put_def)
  next
    case (Collect i)
    let ?bp = "bufPool\<lparr>pool := sync_Pool_discard i (pool bufPool)\<rparr>"
    have d: "set (pool ?bp) \<subseteq> set (pool bufPool)"
      using set_take_subset [of i "pool bufPool"] set_drop_subset [of "Suc i" "pool bufPool"]
      by (auto simp: sync_Pool_discard_def)
    from Cons.IH [of ?bp] obtain bp2 where "pool_history cfg calls ?bp = Inr bp2"
      and "set (pool bp2) \<subseteq> set (pool ?bp) \<union> set (put_buffers calls)"
      by blast
    with d Collect show ?thesis by auto
  qed
qed

text \<open>
  C6, as the code has it. A pool is made only for a buffer size above zero. After any history
  of \<^verbatim>\<open>Get\<close> and \<^verbatim>\<open>Put\<close> calls (and of entries dropped by the collector) on a new
  pool, \<^verbatim>\<open>Get\<close> succeeds, and on a miss it returns a fresh zeroed buffer of the configured
  size. A buffer that comes from the cache is one that some \<^verbatim>\<open>Put\<close> stored, unchanged and
  unchecked: it has at least the configured size provided every buffer handed to
  \<^verbatim>\<open>Put\<close> had.
\<close>

theorem C6_pool_buffer_length:
  assumes "0 < poolBufSize cfg"
  shows "\<exists>bufPool buf bufPool'.
           pool_history cfg calls NewProxyBufferPool = Inr bufPool \<and>
           Get cfg pick bufPool = Inr (buf, bufPool') \<and>
           (fst (sync_Pool_Get pick (pool bufPool)) = None \<longrightarrow>
              buf = replicate (nat (poolBufSize cfg)) 0) \<and>
           ((\<forall>put \<in> set (put_buffers calls). poolBufSize cfg \<le> int (length put)) \<longrightarrow>
              poolBufSize cfg \<le> int (length buf))"
proof -
  from assms have nn: "0 \<le> poolBufSize cfg" by simp
  from pool_history_succeeds [OF nn, of calls NewProxyBufferPool] obtain bp
    where h: "pool_history cfg calls NewProxyBufferPool = Inr bp"
      and sub: "set (pool bp) \<subseteq> set (put_buffers calls)"
    by (auto simp: NewProxyBufferPool_def)
  from Get_succeeds [OF nn, of pick bp] obtain buf bp'
    where g: "Get cfg pick bp = Inr (buf, bp')"
      and c: "case fst (sync_Pool_Get pick (pool bp)) of
              None \<Rightarrow> buf = replicate (nat (poolBufSize cfg)) 0
            | Some cached \<Rightarrow> buf = cached \<and> cached \<in> set (pool bp)"
    by blast
  have fresh: "buf = replicate (nat (poolBufSize cfg)) 0"
    if "fst (sync_Pool_Get pick (pool bp)) = None"
    using c that by simp
  have long: "poolBufSize cfg \<le> int (length buf)"
    if puts: "\<forall>put \<in> set (put_buffers calls). poolBufSize cfg \<le> int (length put)"
  proof (cases "fst (sync_Pool_Get pick (pool bp))")
    case None
    with c nn show ?thesis by simp
  next
    case (Some cached)
    with c have "buf \<in> set (pool bp)" by simp
    with sub puts show ?thesis by blast
  qed
  show ?thesis
  proof (intro exI conjI)
    show "pool_history cfg calls NewProxyBufferPool = Inr bp" by (rule h)
    show "Get cfg pick bp = Inr (buf, bp')" by (rule g)
    show "fst (sync_Pool_Get pick (pool bp)) = None \<longrightarrow>
            buf = replicate (nat (poolBufSize cfg)) 0"
      using fresh by blast
    show "(\<forall>put \<in> set (put_buffers calls). poolBufSize cfg \<le> int (length put)) \<longrightarrow>
            poolBufSize cfg \<le> int (length buf)"
      using long by blast
  qed
qed

text \<open>A miss, a full-size buffer put back, a collection, then a hit.\<close>

theorem C6_pool_buffer_length_witness:
  "0 < poolBufSize two_servers_config
   \<and> put_buffers [CallGet None, CallPut (replicate 131072 0), Collect 5] = [replicate 131072 0]
   \<and> poolBufSize two_servers_config \<le> int (length (replicate 131072 (0 :: byte)))
   \<and> (\<exists>bufPool buf bufPool'.
         pool_history two_servers_config [CallGet None, CallPut (replicate 131072 0), Collect 5]
           NewProxyBufferPool = Inr bufPool \<and>
         Get two_servers_config (Some 0) bufPool = Inr (buf, bufPool') \<and>
         poolBufSize two_servers_config \<le> int (length buf))"
proof -
  have p: "0 < poolBufSize two_servers_config" by (simp add: two_servers_config_def)
  have b: "put_buffers [CallGet None, CallPut (replicate 131072 0), Collect 5] =
             [replicate 131072 0]"
    by simp
  have l: "poolBufSize two_servers_config \<le> int (length (replicate 131072 (0 :: byte)))"
    by (simp add: two_servers_config_def)
  from C6_pool_buffer_length [OF p,
      of "[CallGet None, CallPut (replicate 131072 0), Collect 5]" "Some 0"]
  have "\<exists>bufPool buf bufPool'.
         pool_history two_servers_config [CallGet None, CallPut (replicate 131072 0), Collect 5]
           NewProxyBufferPool = Inr bufPool \<and>
         Get two_servers_config (Some 0) bufPool = Inr (buf, bufPool') \<and>
         poolBufSize two_servers_config \<le> int (length buf)"
    unfolding b using l by auto
  with p b l show ?thesis by blast
qed

text \<open>
  C6 as stated fails: \<^verbatim>\<open>Put\<close> takes a one-byte buffer, and the next \<^verbatim>\<open>Get\<close> hands
  it out although the configured size is 131072.
\<close>

theorem C6_short_buffer_counterexample:
  "pool_history two_servers_config [CallPut [0]] NewProxyBufferPool =
     Inr \<lparr> pool = [[0]], bufAllocNum = 0 \<rparr>
   \<and> Get two_servers_config (Some 0) \<lparr> pool = [[0]], bufAllocNum = 0 \<rparr> =
       Inr ([0], \<lparr> pool = [], bufAllocNum = 0 \<rparr>)
   \<and> int (length [0 :: byte]) < poolBufSize two_servers_config"
  by (simp add: Put_def sync_Pool_Put_def sync_Pool_Get_def Get_def NewProxyBufferPool_def
      two_servers_config_def)

subsection \<open>C7: the redirect answer\<close>



subsection \<open>C8: no serving without backends\<close>

text \<open>
  C8. Without backend arguments \<^verbatim>\<open>main\<close> ends in \<^verbatim>\<open>os.Exit\<close> before it sets up any
  handler: with status 1, or with status 0 when only the version was asked for. Hence, when
  \<^verbatim>\<open>main\<close> gets as far as serving, the backend list is not empty, and on every store with
  that list and for every ticket \<open>t\<close> the modulo of line 225 does not divide by zero and the
  index it yields is within the list (the number of arguments being below \<open>2^32\<close>).
\<close>

theorem C8_serving_needs_backends:
  "(args = [] \<longrightarrow>
      main parse flags args os_limit = Inl (Exit (if flag_version flags then 0 else 1)))
   \<and> (main parse flags args os_limit = Inr (cfg, s0) \<and> length args < 2 ^ 32 \<and>
      proxies (proxyState s) = proxies (proxyState s0) \<longrightarrow>
        args \<noteq> [] \<and> proxies (proxyState s) \<noteq> [] \<and>
        mod_uint32 t (of_nat (length (proxies (proxyState s)))) =
          Inr (t mod of_nat (length (proxies (proxyState s)))) \<and>
        unat (t mod of_nat (length (proxies (proxyState s)))) < length (proxies (proxyState s)) \<and>
        proxy_index s t = Inr (unat t mod length (proxies (proxyState s))))"
proof (intro conjI impI)
  assume "args = []"
  then show "main parse flags args os_limit = Inl (Exit (if flag_version flags then 0 else 1))"
    by (simp add: main_def ParseArguments_def Let_def)
next
  assume a: "main parse flags args os_limit = Inr (cfg, s0) \<and> length args < 2 ^ 32 \<and>
      proxies (proxyState s) = proxies (proxyState s0)"
  then have m: "main parse flags args os_limit = Inr (cfg, s0)" and l: "length args < 2 ^ 32"
    and p: "proxies (proxyState s) = proxies (proxyState s0)" by simp_all
  from serving_main(1) [OF m l p]
  have n: "0 < length (proxies (proxyState s))" "length (proxies (proxyState s)) < 2 ^ 32"
    by (simp_all add: serving_def)
  note u = uint32_of_length [OF n]
  show "args \<noteq> []" using main_shape(1) [OF m] .
  show "proxies (proxyState s) \<noteq> []" using n(1) by auto
  show "mod_uint32 t (of_nat (length (proxies (proxyState s)))) =
          Inr (t mod of_nat (length (proxies (proxyState s))))"
    using u(1) by (simp add: mod_uint32_def)
  show "unat (t mod of_nat (length (proxies (proxyState s)))) < length (proxies (proxyState s))"
    using n(1) by (simp add: unat_mod_distrib u(2))
  show "proxy_index s t = Inr (unat t mod length (proxies (proxyState s)))"
    using proxy_index_ok [OF n] .
qed

text \<open>No arguments: exit status 1. Two servers: ticket 7 selects backend 1.\<close>

theorem C8_serving_needs_backends_witness:
  "main Some default_flags [] usual_limit = Inl (Exit 1)
   \<and> main Some default_flags [''http://192.168.0.1'', ''http://192.168.0.2''] usual_limit =
       Inr (two_servers_config, two_servers_store)
   \<and> length [''http://192.168.0.1'', ''http://192.168.0.2''] < (2::nat) ^ 32
   \<and> proxy_index two_servers_store 7 = Inr 1"
proof -
  have len: "length [''http://192.168.0.1'', ''http://192.168.0.2''] < (2::nat) ^ 32" by simp
  have v: "\<not> flag_version default_flags" by (simp add: default_flags_def)
  have l2: "length (proxies (proxyState two_servers_store)) = 2"
    by (simp add: two_servers_store_def)
  from C8_serving_needs_backends [of "[]" Some default_flags usual_limit] v
  have a: "main Some default_flags [] usual_limit = Inl (Exit 1)" by simp
  from C8_serving_needs_backends [of "[''http://192.168.0.1'', ''http://192.168.0.2'']"
      Some default_flags usual_limit two_servers_config two_servers_store two_servers_store 7]
    two_servers_main len
  have "proxy_index two_servers_store 7 = Inr (unat (7 :: 32 word) mod 2)"
    by (simp add: l2)
  then have b: "proxy_index two_servers_store 7 = Inr 1" by simp
  from a b two_servers_main len show ?thesis by simp
qed

subsection \<open>C9: cap 0 switches admission control off\<close>

lemma unlimited_task_step:
  assumes "numConnsPerServer cfg = 0" and "task_step cfg outcome s p = Some (s', p')"
  shows "semaphores s' = semaphores s"
    and "connLimiters (proxyState s') = connLimiters (proxyState s)"
proof -
  have "semaphores s' = semaphores s \<and>
        connLimiters (proxyState s') = connLimiters (proxyState s)"
    using assms
    by (cases p) (auto simp: atomic_AddUint32_eq admit_def release_def split: sum.splits if_splits)
  then show "semaphores s' = semaphores s"
    and "connLimiters (proxyState s') = connLimiters (proxyState s)"
    by simp_all
qed

lemma unlimited_reachable:
  assumes "(step cfg)\<^sup>*\<^sup>* w0 w" and "numConnsPerServer cfg = 0"
  shows "semaphores (store w) = semaphores (store w0) \<and>
         connLimiters (proxyState (store w)) = connLimiters (proxyState (store w0))"
  using assms(1)
proof (induction rule: rtranclp_induct)
  case base
  show ?case by simp
next
  case (step y z)
  from step.hyps(2) show ?case
  proof (cases rule: step.cases)
    case arrive
    with step.IH show ?thesis by simp
  next
    case (run i outcome s' p')
    from unlimited_task_step [OF assms(2) run(3)] run(1) step.IH show ?thesis by simp
  qed
qed

lemma unlimited_admit: "numConnsPerServer cfg = 0 \<Longrightarrow> admit cfg s b = Admitted s []"
  by (simp add: admit_def)

lemma unlimited_release: "numConnsPerServer cfg = 0 \<Longrightarrow> release cfg s b = Inr (s, [])"
  by (simp add: release_def)

lemma unlimited_handler_ends:
  assumes "numConnsPerServer cfg = 0"
  shows "snd (snd (ProxyRequestHandler cfg outcome s r)) \<noteq> Blocked"
  by (simp add: ProxyRequestHandler_def atomic_AddUint32_eq unlimited_admit [OF assms]
      unlimited_release [OF assms] Let_def split: sum.splits prod.splits)

text \<open>
  C9. With cap 0, \<^verbatim>\<open>InitProxyState\<close> makes no limiter, and none appears later. A task
  that has its index can always take its next step into the forward, whatever the other
  tasks are doing. On any store, line 230 admits without reading a limiter, line 246 releases
  nothing, and the handler never ends parked.
\<close>

theorem C9_cap_zero_admits_at_once:
  assumes "main parse flags args os_limit = Inr (cfg, s0)"
    and "numConnsPerServer cfg = 0"
    and "(step cfg)\<^sup>*\<^sup>* \<lparr> store = s0, tasks = [] \<rparr> w"
    and "i < length (tasks w)"
    and "tasks w ! i = AdmissionPending b"
  shows "step cfg w \<lparr> store = store w, tasks = (tasks w)[i := Forwarding b] \<rparr>
       \<and> connLimiters (proxyState (store w)) = [] \<and> semaphores (store w) = []
       \<and> admit cfg s b' = Admitted s []
       \<and> release cfg s b' = Inr (s, [])
       \<and> snd (snd (ProxyRequestHandler cfg outcome s r)) \<noteq> Blocked"
proof -
  have t: "task_step cfg Completed (store w) (tasks w ! i) = Some (store w, Forwarding b)"
    by (simp add: assms(5) unlimited_admit [OF assms(2)])
  have 1: "step cfg w \<lparr> store = store w, tasks = (tasks w)[i := Forwarding b] \<rparr>"
    using assms(4) t by (rule step.run)
  from unlimited_reachable [OF assms(3,2)] main_shape(9,10) [OF assms(1,2)]
  have 2: "connLimiters (proxyState (store w)) = []" "semaphores (store w) = []"
    by simp_all
  from 1 2 unlimited_admit [OF assms(2)] unlimited_release [OF assms(2)]
    unlimited_handler_ends [OF assms(2)]
  show ?thesis by simp
qed

text \<open>
  One server, cap 0, three requests: two are forwarding at once, and the third can join them.
\<close>

lemma unlimited_main:
  "main Some (default_flags\<lparr>flag_maxconns := 0\<rparr>) [''http://192.168.0.1''] usual_limit =
     Inr (one_server_config\<lparr>numConnsPerServer := 0\<rparr>,
          one_server_store\<lparr>proxyState := (proxyState one_server_store)\<lparr>connLimiters := []\<rparr>,
                           semaphores := []\<rparr>)"
  by (simp add: main_def ParseArguments_def default_flags_def usual_limit_def Let_def
      InitProxyState_def zero_Store_def add_proxy_def NewProxy_def NewProxyBufferPool_def
      one_server_config_def one_server_store_def)

lemma unlimited_play:
  "play (one_server_config\<lparr>numConnsPerServer := 0\<rparr>)
     [Arrive, Arrive, Arrive, Run 0 Completed, Run 1 Completed, Run 2 Completed,
      Run 0 Completed, Run 1 Completed]
     \<lparr> store = one_server_store\<lparr>proxyState :=
                  (proxyState one_server_store)\<lparr>connLimiters := []\<rparr>, semaphores := []\<rparr>,
       tasks = [] \<rparr> =
   Some \<lparr> store = one_server_store\<lparr>proxyState :=
                     (proxyState one_server_store)\<lparr>connLimiters := [], requestNum := 3\<rparr>,
                   semaphores := []\<rparr>,
          tasks = [Forwarding 0, Forwarding 0, AdmissionPending 0] \<rparr>"
  by (simp add: one_server_config_def one_server_store_def atomic_AddUint32_def
      proxy_index_def mod_uint32_def index_slice_def admit_def Let_def)

theorem C9_cap_zero_admits_at_once_witness:
  "main Some (default_flags\<lparr>flag_maxconns := 0\<rparr>) [''http://192.168.0.1''] usual_limit =
     Inr (one_server_config\<lparr>numConnsPerServer := 0\<rparr>,
          one_server_store\<lparr>proxyState := (proxyState one_server_store)\<lparr>connLimiters := []\<rparr>,
                           semaphores := []\<rparr>)
   \<and> numConnsPerServer (one_server_config\<lparr>numConnsPerServer := 0\<rparr>) = 0
   \<and> (step (one_server_config\<lparr>numConnsPerServer := 0\<rparr>))\<^sup>*\<^sup>*
        \<lparr> store = one_server_store\<lparr>proxyState :=
                  (proxyState one_server_store)\<lparr>connLimiters := []\<rparr>, semaphores := []\<rparr>,
          tasks = [] \<rparr>
        \<lparr> store = one_server_store\<lparr>proxyState :=
                     (proxyState one_server_store)\<lparr>connLimiters := [], requestNum := 3\<rparr>,
                   semaphores := []\<rparr>,
          tasks = [Forwarding 0, Forwarding 0, AdmissionPending 0] \<rparr>
   \<and> step (one_server_config\<lparr>numConnsPerServer := 0\<rparr>)
        \<lparr> store = one_server_store\<lparr>proxyState :=
                     (proxyState one_server_store)\<lparr>connLimiters := [], requestNum := 3\<rparr>,
                   semaphores := []\<rparr>,
          tasks = [Forwarding 0, Forwarding 0, AdmissionPending 0] \<rparr>
        \<lparr> store = one_server_store\<lparr>proxyState :=
                     (proxyState one_server_store)\<lparr>connLimiters := [], requestNum := 3\<rparr>,
                   semaphores := []\<rparr>,
          tasks = [Forwarding 0, Forwarding 0, Forwarding 0] \<rparr>"
proof -
  have c: "numConnsPerServer (one_server_config\<lparr>numConnsPerServer := 0\<rparr>) = 0" by simp
  note r = play_steps [OF unlimited_play]
  have i: "2 < length (tasks \<lparr> store = one_server_store\<lparr>proxyState :=
                     (proxyState one_server_store)\<lparr>connLimiters := [], requestNum := 3\<rparr>,
                   semaphores := []\<rparr>,
          tasks = [Forwarding 0, Forwarding 0, AdmissionPending 0] \<rparr>)" by simp
  have p: "tasks \<lparr> store = one_server_store\<lparr>proxyState :=
                     (proxyState one_server_store)\<lparr>connLimiters := [], requestNum := 3\<rparr>,
                   semaphores := []\<rparr>,
          tasks = [Forwarding 0, Forwarding 0, AdmissionPending 0] \<rparr> ! 2 = AdmissionPending 0"
    by simp
  from C9_cap_zero_admits_at_once [OF unlimited_main c r i p] unlimited_main c r
  show ?thesis by simp
qed

subsection \<open>C10: every nonzero cap makes limiters, a negative one admits nobody\<close>

lemma admit_fresh:
  assumes "connLimiters (proxyState s) = [0..<n]"
    and "semaphores s = replicate n \<lparr> sem_size = c, sem_cur = 0 \<rparr>"
    and "numConnsPerServer cfg = c" and "c \<noteq> 0" and "b < n"
  shows "admit cfg s b =
           (if 1 \<le> c
            then Admitted (s\<lparr>semaphores := (semaphores s)[b := \<lparr> sem_size = c, sem_cur = 1 \<rparr>]\<rparr>)
                          [Acquired b]
            else Waits)"
  using assms by (simp add: admit_def index_slice_def Acquire_def)

lemma negative_cap_waits:
  assumes "admission_inv cfg n w" and "numConnsPerServer cfg < 0" and "b < n"
  shows "admit cfg (store w) b = Waits"
proof -
  from assms(1,3) have c: "connLimiters (proxyState (store w)) = [0..<n]"
    and l: "length (semaphores (store w)) = n"
    and z: "sem_size (semaphores (store w) ! b) = numConnsPerServer cfg"
    and h: "int (holders (tasks w) b) \<le> sem_cur (semaphores (store w) ! b)"
    by (simp_all add: admission_inv_def)
  from h have "0 \<le> sem_cur (semaphores (store w) ! b)" by linarith
  with z assms(2) have "\<not> 1 \<le> sem_size (semaphores (store w) ! b) - sem_cur (semaphores (store w) ! b)"
    by linarith
  with c l assms(2,3) show ?thesis
    by (simp add: admit_def index_slice_def Acquire_def)
qed

text \<open>
  C10. With a nonzero cap \<open>c\<close>, negative or not, \<^verbatim>\<open>InitProxyState\<close> makes one semaphore
  of size \<open>c\<close> per backend, and line 230 acquires from the backend's own: right after startup
  the first acquisition succeeds exactly when \<open>c \<ge> 1\<close>. With \<open>c < 0\<close>, in every state the
  server can reach no task is forwarding or about to release, and an acquisition for any
  backend waits.
\<close>

theorem C10_nonzero_cap_limits:
  assumes "main parse flags args os_limit = Inr (cfg, s0)"
    and "numConnsPerServer cfg \<noteq> 0"
  shows "connLimiters (proxyState s0) = [0..<length args]
       \<and> semaphores s0 =
           replicate (length args) \<lparr> sem_size = numConnsPerServer cfg, sem_cur = 0 \<rparr>
       \<and> (b < length args \<longrightarrow>
            admit cfg s0 b =
              (if 1 \<le> numConnsPerServer cfg
               then Admitted (s0\<lparr>semaphores := (semaphores s0)
                                  [b := \<lparr> sem_size = numConnsPerServer cfg, sem_cur = 1 \<rparr>]\<rparr>)
                             [Acquired b]
               else Waits))
       \<and> (numConnsPerServer cfg < 0 \<and> (step cfg)\<^sup>*\<^sup>* \<lparr> store = s0, tasks = [] \<rparr> w \<longrightarrow>
            count_list (tasks w) (Forwarding b) = 0 \<and>
            count_list (tasks w) (Releasing b) = 0 \<and>
            (b < length args \<longrightarrow> admit cfg (store w) b = Waits))"
proof -
  have 1: "connLimiters (proxyState s0) = [0..<length args]"
    using main_shape(7) [OF assms] .
  have 2: "semaphores s0 =
           replicate (length args) \<lparr> sem_size = numConnsPerServer cfg, sem_cur = 0 \<rparr>"
    using main_shape(8) [OF assms] by (simp add: NewWeighted_def)
  have 3: "admit cfg s0 b =
              (if 1 \<le> numConnsPerServer cfg
               then Admitted (s0\<lparr>semaphores := (semaphores s0)
                                  [b := \<lparr> sem_size = numConnsPerServer cfg, sem_cur = 1 \<rparr>]\<rparr>)
                             [Acquired b]
               else Waits)"
    if "b < length args"
    using admit_fresh [OF 1 2 refl assms(2) that] .
  have 4: "count_list (tasks w) (Forwarding b) = 0 \<and>
            count_list (tasks w) (Releasing b) = 0 \<and>
            (b < length args \<longrightarrow> admit cfg (store w) b = Waits)"
    if neg: "numConnsPerServer cfg < 0"
      and r: "(step cfg)\<^sup>*\<^sup>* \<lparr> store = s0, tasks = [] \<rparr> w"
  proof -
    from forwards_bounded [OF assms r, of b] neg have "holders (tasks w) b = 0" by simp
    then have "count_list (tasks w) (Forwarding b) = 0" "count_list (tasks w) (Releasing b) = 0"
      by (simp_all add: holders_def)
    moreover have "admit cfg (store w) b = Waits" if "b < length args"
      using negative_cap_waits [OF admission_inv_reachable
          [OF r assms(2) admission_inv_main [OF assms]] neg that] .
    ultimately show ?thesis by simp
  qed
  from 1 2 3 4 show ?thesis by blast
qed

text \<open>One server with \<^verbatim>\<open>-maxconns -1\<close> and two requests: both have their index, both wait.\<close>

lemma negative_main:
  "main Some (default_flags\<lparr>flag_maxconns := - 1\<rparr>) [''http://192.168.0.1''] usual_limit =
     Inr (one_server_config\<lparr>numConnsPerServer := - 1\<rparr>,
          one_server_store\<lparr>semaphores := [\<lparr> sem_size = - 1, sem_cur = 0 \<rparr>]\<rparr>)"
  by (simp add: main_def ParseArguments_def default_flags_def usual_limit_def Let_def
      InitProxyState_def zero_Store_def add_proxy_def NewProxy_def NewProxyBufferPool_def
      NewWeighted_def one_server_config_def one_server_store_def)

lemma negative_play:
  "play (one_server_config\<lparr>numConnsPerServer := - 1\<rparr>)
     [Arrive, Arrive, Run 0 Completed, Run 1 Completed]
     \<lparr> store = one_server_store\<lparr>semaphores := [\<lparr> sem_size = - 1, sem_cur = 0 \<rparr>]\<rparr>,
       tasks = [] \<rparr> =
   Some \<lparr> store = one_server_store
                  \<lparr>proxyState := (proxyState one_server_store)\<lparr>requestNum := 2\<rparr>,
                   semaphores := [\<lparr> sem_size = - 1, sem_cur = 0 \<rparr>]\<rparr>,
          tasks = [AdmissionPending 0, AdmissionPending 0] \<rparr>"
  by (simp add: one_server_config_def one_server_store_def atomic_AddUint32_def
      proxy_index_def mod_uint32_def index_slice_def Let_def)

theorem C10_nonzero_cap_limits_witness:
  "main Some (default_flags\<lparr>flag_maxconns := - 1\<rparr>) [''http://192.168.0.1''] usual_limit =
     Inr (one_server_config\<lparr>numConnsPerServer := - 1\<rparr>,
          one_server_store\<lparr>semaphores := [\<lparr> sem_size = - 1, sem_cur = 0 \<rparr>]\<rparr>)
   \<and> numConnsPerServer (one_server_config\<lparr>numConnsPerServer := - 1\<rparr>) \<noteq> 0
   \<and> numConnsPerServer (one_server_config\<lparr>numConnsPerServer := - 1\<rparr>) < 0
   \<and> 0 < length [''http://192.168.0.1'']
   \<and> (step (one_server_config\<lparr>numConnsPerServer := - 1\<rparr>))\<^sup>*\<^sup>*
        \<lparr> store = one_server_store\<lparr>semaphores := [\<lparr> sem_size = - 1, sem_cur = 0 \<rparr>]\<rparr>,
          tasks = [] \<rparr>
        \<lparr> store = one_server_store
                  \<lparr>proxyState := (proxyState one_server_store)\<lparr>requestNum := 2\<rparr>,
                   semaphores := [\<lparr> sem_size = - 1, sem_cur = 0 \<rparr>]\<rparr>,
          tasks = [AdmissionPending 0, AdmissionPending 0] \<rparr>
   \<and> admit (one_server_config\<lparr>numConnsPerServer := - 1\<rparr>)
        (one_server_store
                  \<lparr>proxyState := (proxyState one_server_store)\<lparr>requestNum := 2\<rparr>,
                   semaphores := [\<lparr> sem_size = - 1, sem_cur = 0 \<rparr>]\<rparr>) 0 = Waits
   \<and> admit (one_server_config\<lparr>numConnsPerServer := - 1\<rparr>)
        (one_server_store\<lparr>semaphores := [\<lparr> sem_size = - 1, sem_cur = 0 \<rparr>]\<rparr>) 0 = Waits"
proof -
  have c: "numConnsPerServer (one_server_config\<lparr>numConnsPerServer := - 1\<rparr>) \<noteq> 0"
    and n: "numConnsPerServer (one_server_config\<lparr>numConnsPerServer := - 1\<rparr>) < 0"
    by simp_all
  note r = play_steps [OF negative_play]
  from C10_nonzero_cap_limits [OF negative_main c, of 0
      "\<lparr> store = one_server_store
                  \<lparr>proxyState := (proxyState one_server_store)\<lparr>requestNum := 2\<rparr>,
                   semaphores := [\<lparr> sem_size = - 1, sem_cur = 0 \<rparr>]\<rparr>,
          tasks = [AdmissionPending 0, AdmissionPending 0] \<rparr>"]
    negative_main c n r
  show ?thesis by simp
qed

end
